theory Spec2Isabelle
  imports Complex_Main
begin

section \<open>JavaScript values\<close>

text \<open>
  The poller of \<^verbatim>\<open>src/main.js\<close> is dynamically typed in exactly three places: it asks
  \<^verbatim>\<open>typeof conf.maxTries\<close>, \<^verbatim>\<open>typeof conf.pollTime\<close> and \<^verbatim>\<open>typeof conf.onTic\<close>. The values
  stored in those properties are therefore modelled as untyped JavaScript values. A
  JavaScript number is a finite value, one of the two infinities, or NaN; every finite
  double is a rational, and comparison of doubles is comparison of their values.
\<close>

datatype number = Finite rat | PosInfinity | NegInfinity | NaN

datatype jsval =
    Undefined
  | Null
  | Boolean bool
  | Number number
  | String string
  | Object "(string \<times> jsval) list"
  | Function nat

type_synonym object = "(string \<times> jsval) list"

fun typeof :: "jsval \<Rightarrow> string" where
  "typeof Undefined = ''undefined''"
| "typeof Null = ''object''"
| "typeof (Boolean b) = ''boolean''"
| "typeof (Number n) = ''number''"
| "typeof (String s) = ''string''"
| "typeof (Object ps) = ''object''"
| "typeof (Function f) = ''function''"

text \<open>The relational operator \<^verbatim>\<open><\<close> on two numbers: false as soon as one side is NaN.\<close>

fun num_less :: "number \<Rightarrow> number \<Rightarrow> bool" where
  "num_less (Finite a) (Finite b) = (a < b)"
| "num_less (Finite a) PosInfinity = True"
| "num_less NegInfinity (Finite b) = True"
| "num_less NegInfinity PosInfinity = True"
| "num_less _ _ = False"

text \<open>
  The source applies \<^verbatim>\<open><\<close> only to operands that are numbers: in the validation the
  \<^verbatim>\<open>typeof\<close> test guards it, and afterwards \<^verbatim>\<open>conf.maxTries\<close> is a number. The coercions
  of \<^verbatim>\<open><\<close> on other operands are never reached and are not modelled.
\<close>

fun js_less :: "jsval \<Rightarrow> jsval \<Rightarrow> bool" where
  "js_less (Number a) (Number b) = num_less a b"
| "js_less _ _ = False"

text \<open>Reading a property of an object: a missing property reads as \<^verbatim>\<open>undefined\<close>.\<close>

definition getProp :: "object \<Rightarrow> string \<Rightarrow> jsval" where
  "getProp obj k = (case map_of obj k of None \<Rightarrow> Undefined | Some v \<Rightarrow> v)"

text \<open>
  The expression \<^verbatim>\<open>res.status\<close> on any value: it throws a TypeError on \<^verbatim>\<open>undefined\<close> and
  \<^verbatim>\<open>null\<close> (no value is returned), reads the property of an object, and is \<^verbatim>\<open>undefined\<close>
  on the other values, which carry no such property.
\<close>

fun statusOf :: "jsval \<Rightarrow> jsval option" where
  "statusOf Undefined = None"
| "statusOf Null = None"
| "statusOf (Object ps) = Some (getProp ps ''status'')"
| "statusOf v = Some Undefined"

section \<open>The configuration object and its validation\<close>

text \<open>
  The object handed to the launcher. \<^verbatim>\<open>onSuccess\<close> and \<^verbatim>\<open>onFail\<close> are required callbacks
  (the source calls them without a test), so they are callables, identified by a number;
  an absent \<^verbatim>\<open>maxTries\<close>, \<^verbatim>\<open>pollTime\<close> or \<^verbatim>\<open>onTic\<close> reads as \<^verbatim>\<open>undefined\<close>; \<open>rest\<close> holds
  every other property the caller put on the object.
\<close>

record config =
  maxTries :: jsval
  pollTime :: jsval
  onSuccess :: nat
  onFail :: nat
  onTic :: jsval
  rest :: object

text \<open>
  Lines 55 to 65 of \<^verbatim>\<open>src/main.js\<close>. The assignments write to the caller's object; the
  model returns the object as it is after them.
\<close>

definition validate :: "config \<Rightarrow> config" where
  "validate conf =
     (let conf = (if typeof (maxTries conf) \<noteq> ''number'' \<or> js_less (maxTries conf) (Number (Finite 1))
                  then conf\<lparr>maxTries := Number (Finite 10)\<rparr> else conf);
          conf = (if typeof (pollTime conf) \<noteq> ''number'' \<or> js_less (pollTime conf) (Number (Finite 1))
                  then conf\<lparr>pollTime := Number (Finite 100)\<rparr> else conf)
      in conf)"

section \<open>Sessions and the launcher\<close>

text \<open>
  What a session does that can be seen from outside: it invokes the fetcher, the two
  predicates, the timer facility and the callbacks of its configuration object, and its
  completion handler may throw. Each session keeps the sequence of these calls, with their
  arguments.
\<close>

datatype event =
    GetStatus
  | OnTic jsval nat
  | StatusResultSuccess jsval
  | StatusResultAbort jsval
  | SetTimeout jsval
  | OnSuccess
  | OnFail
  | TypeError

text \<open>
  The phase of a session is what it did last: it invoked the fetcher, it set a timer, it
  called a terminal callback, or its completion handler threw. \<open>timers\<close> counts the timers
  the session has set that have not fired yet.
\<close>

datatype phase = Idle | Fetching | Waiting | Terminated | Thrown

record session =
  conf :: config
  phase :: phase
  trace :: "event list"
  timers :: nat

text \<open>
  The closure that \<^verbatim>\<open>pollForStatus\<close> returns owns the variable \<^verbatim>\<open>testCount\<close> (line 50 of
  \<^verbatim>\<open>src/main.js\<close>, declared outside the returned function); every call of the returned
  function starts one session. The counter is a natural number: JavaScript increments
  integers exactly below \<open>2 ^ 53\<close>.
\<close>

record launcher =
  testCount :: nat
  sessions :: "session list"

definition pollForStatus :: launcher where
  "pollForStatus = \<lparr>testCount = 0, sessions = []\<rparr>"

text \<open>
  \<^verbatim>\<open>performStatusCheck\<close>, lines 68 to 74: count the call, then invoke the fetcher with the
  completion handler. The session now has a fetch outstanding.
\<close>

definition startFetch :: "session \<Rightarrow> session" where
  "startFetch s = s\<lparr>phase := Fetching, trace := trace s @ [GetStatus]\<rparr>"

definition performStatusCheck :: "nat \<Rightarrow> launcher \<Rightarrow> launcher" where
  "performStatusCheck i l =
     l\<lparr>testCount := testCount l + 1,
       sessions := (sessions l)[i := startFetch (sessions l ! i)]\<rparr>"

text \<open>
  The completion handler, lines 74 to 96, run with the result \<open>res\<close> that the fetcher
  delivers, any value, the launcher's counter as it is at that moment, and the two
  predicates the launcher was built from. \<^verbatim>\<open>onTic\<close> is called first; then
  \<^verbatim>\<open>canStillTry\<close> is computed and \<^verbatim>\<open>res.status\<close> is read for the success predicate, which
  throws when the result is \<^verbatim>\<open>null\<close> or \<^verbatim>\<open>undefined\<close>: the handler then ends there, with
  no predicate called, no timer set and no terminal callback. The predicates are pure and
  return a truth value. The callbacks of the configuration object are called and recorded;
  they are taken not to write to that object.
\<close>

definition statusCallback ::
  "(jsval \<Rightarrow> bool) \<Rightarrow> (jsval \<Rightarrow> bool) \<Rightarrow> nat \<Rightarrow> jsval \<Rightarrow> session \<Rightarrow> session" where
  "statusCallback statusResultSuccess statusResultAbort count res s =
     (let tic = (if typeof (onTic (conf s)) = ''function'' then [OnTic res count] else []);
          canStillTry = js_less (Number (Finite (of_nat count))) (maxTries (conf s))
      in case statusOf res of
           None \<Rightarrow> s\<lparr>phase := Thrown, trace := trace s @ tic @ [TypeError]\<rparr>
         | Some status \<Rightarrow>
            (let succeeded = statusResultSuccess status;
                 aborted = statusResultAbort status;
                 calls = tic @ [StatusResultSuccess status, StatusResultAbort status]
             in if canStillTry \<and> \<not> succeeded \<and> \<not> aborted
                then s\<lparr>phase := Waiting,
                       trace := trace s @ calls @ [SetTimeout (pollTime (conf s))],
                       timers := timers s + 1\<rparr>
                else if succeeded
                  then s\<lparr>phase := Terminated, trace := trace s @ calls @ [OnSuccess]\<rparr>
                  else s\<lparr>phase := Terminated, trace := trace s @ calls @ [OnFail]\<rparr>))"

text \<open>
  The function returned by \<^verbatim>\<open>pollForStatus\<close>, lines 53 to 98: validate the configuration
  object, then run \<^verbatim>\<open>performStatusCheck\<close> for the first time, before returning.
\<close>

definition launch :: "config \<Rightarrow> launcher \<Rightarrow> launcher" where
  "launch c l =
     performStatusCheck (length (sessions l))
       (l\<lparr>sessions := sessions l @
                      [\<lparr>conf = validate c, phase = Idle, trace = [], timers = 0\<rparr>]\<rparr>)"

text \<open>
  What happens to a launcher, one event of the host at a time: the caller starts a session,
  the fetcher calls a session's completion handler with a result, or a timer of a session
  fires. The handler has no guard of its own: the fetcher holds it from the session's first
  fetch on, and every call runs it, also a second call for the same fetch and a call after
  the session has ended. A timer fires only when the session has set one that has not fired
  yet; it is then no longer pending, and \<^verbatim>\<open>performStatusCheck\<close> runs.
\<close>

datatype input = Launch config | Deliver nat jsval | Timer nat

fun enabled :: "launcher \<Rightarrow> input \<Rightarrow> bool" where
  "enabled l (Launch c) = True"
| "enabled l (Deliver i res) = (i < length (sessions l))"
| "enabled l (Timer i) = (i < length (sessions l) \<and> 0 < timers (sessions l ! i))"

definition fire :: "session \<Rightarrow> session" where
  "fire s = s\<lparr>timers := timers s - 1\<rparr>"

fun step :: "(jsval \<Rightarrow> bool) \<Rightarrow> (jsval \<Rightarrow> bool) \<Rightarrow> launcher \<Rightarrow> input \<Rightarrow> launcher" where
  "step S A l (Launch c) = launch c l"
| "step S A l (Deliver i res) =
     (if enabled l (Deliver i res)
      then l\<lparr>sessions := (sessions l)[i := statusCallback S A (testCount l) res (sessions l ! i)]\<rparr>
      else l)"
| "step S A l (Timer i) =
     (if enabled l (Timer i)
      then performStatusCheck i (l\<lparr>sessions := (sessions l)[i := fire (sessions l ! i)]\<rparr>)
      else l)"

fun exec :: "(jsval \<Rightarrow> bool) \<Rightarrow> (jsval \<Rightarrow> bool) \<Rightarrow> launcher \<Rightarrow> input list \<Rightarrow> launcher" where
  "exec S A l [] = l"
| "exec S A l (x # xs) = exec S A (step S A l x) xs"

text \<open>
  The inputs that took effect, in order: the others name a session that does not exist or
  a timer that is not set, and cannot happen.
\<close>

fun accepted :: "(jsval \<Rightarrow> bool) \<Rightarrow> (jsval \<Rightarrow> bool) \<Rightarrow> launcher \<Rightarrow> input list \<Rightarrow> input list" where
  "accepted S A l [] = []"
| "accepted S A l (x # xs) =
     (if enabled l x then x # accepted S A (step S A l x) xs else accepted S A (step S A l x) xs)"

text \<open>The session an input is addressed to, and the inputs of one session.\<close>

fun target :: "input \<Rightarrow> nat option" where
  "target (Launch c) = None"
| "target (Deliver i res) = Some i"
| "target (Timer i) = Some i"

definition own :: "nat \<Rightarrow> input list \<Rightarrow> input list" where
  "own i xs = filter (\<lambda>x. target x = Some i) xs"

text \<open>The results that a sequence of inputs delivers.\<close>

fun results :: "input list \<Rightarrow> jsval list" where
  "results [] = []"
| "results (Deliver i res # xs) = res # results xs"
| "results (x # xs) = results xs"

text \<open>The history of session \<open>i\<close> of a fresh launcher after the inputs \<open>ins\<close>.\<close>

definition history :: "(jsval \<Rightarrow> bool) \<Rightarrow> (jsval \<Rightarrow> bool) \<Rightarrow> input list \<Rightarrow> nat \<Rightarrow> input list" where
  "history S A ins i = own i (accepted S A pollForStatus ins)"

text \<open>
  The contract of the fetcher, read on the history of a session: it calls the completion
  handler at most once for each invocation. \<open>n\<close> is the number of fetches not answered yet:
  a callback needs one and answers it, and every timer that fires makes one more. The
  launch makes the first, so the contract of a session is \<open>oncePerFetch 1\<close> of its history;
  \<open>owed\<close> is the number of fetches left unanswered at the end.
\<close>

fun oncePerFetch :: "nat \<Rightarrow> input list \<Rightarrow> bool" where
  "oncePerFetch n [] = True"
| "oncePerFetch n (Deliver i res # xs) = (0 < n \<and> oncePerFetch (n - 1) xs)"
| "oncePerFetch n (Timer i # xs) = oncePerFetch (Suc n) xs"
| "oncePerFetch n (Launch c # xs) = oncePerFetch n xs"

fun owed :: "nat \<Rightarrow> input list \<Rightarrow> nat" where
  "owed n [] = n"
| "owed n (Deliver i res # xs) = owed (n - 1) xs"
| "owed n (Timer i # xs) = owed (Suc n) xs"
| "owed n (Launch c # xs) = owed n xs"

text \<open>The results whose \<^verbatim>\<open>status\<close> can be read, with what is read.\<close>

definition statuses :: "jsval list \<Rightarrow> jsval list" where
  "statuses rs = List.map_filter statusOf rs"

text \<open>The arguments of the calls a session made, in order.\<close>

fun ticArg :: "event \<Rightarrow> (jsval \<times> nat) list" where
  "ticArg (OnTic v n) = [(v, n)]"
| "ticArg e = []"

fun successArg :: "event \<Rightarrow> jsval list" where
  "successArg (StatusResultSuccess v) = [v]"
| "successArg e = []"

fun abortArg :: "event \<Rightarrow> jsval list" where
  "abortArg (StatusResultAbort v) = [v]"
| "abortArg e = []"

definition ticArgs :: "event list \<Rightarrow> (jsval \<times> nat) list" where
  "ticArgs tr = concat (map ticArg tr)"

definition successArgs :: "event list \<Rightarrow> jsval list" where
  "successArgs tr = concat (map successArg tr)"

definition abortArgs :: "event list \<Rightarrow> jsval list" where
  "abortArgs tr = concat (map abortArg tr)"

text \<open>What is counted on a session: its fetch invocations and its terminal callbacks.\<close>

definition fetches :: "session \<Rightarrow> nat" where
  "fetches s = count_list (trace s) GetStatus"

definition terminalCalls :: "session \<Rightarrow> nat" where
  "terminalCalls s = count_list (trace s) OnSuccess + count_list (trace s) OnFail"

text \<open>
  A bound on the inputs that a session can still take, when \<open>k\<close> is the first count at
  which \<^verbatim>\<open>canStillTry\<close> is false and \<open>t\<close> is the launcher's counter.
\<close>

fun remaining :: "nat \<Rightarrow> nat \<Rightarrow> phase \<Rightarrow> nat" where
  "remaining k t Idle = 2 * (k - t) + 2"
| "remaining k t Fetching = 2 * (k - t) + 1"
| "remaining k t Waiting = 2 * max (k - t) 1"
| "remaining k t Terminated = 0"
| "remaining k t Thrown = 0"

section \<open>The demonstration of \<^verbatim>\<open>src/main.js\<close>\<close>

text \<open>
  The fetcher of lines 5 to 23 counts its invocations in \<^verbatim>\<open>reqCount\<close> and calls back at
  once, inside the call, with an object whose status is \<^verbatim>\<open>'notReady'\<close> below the tenth
  invocation. The model takes the counter and returns the result with the new counter.
\<close>

definition readyOnTest :: nat where
  "readyOnTest = 10"

definition getStatus :: "nat \<Rightarrow> jsval \<times> nat" where
  "getStatus reqCount =
     (let reqCount = reqCount + 1;
          status = (if reqCount < readyOnTest then ''notReady'' else ''ready'')
      in (Object [(''status'', String status)], reqCount))"

text \<open>The two predicates of lines 108 to 113, with \<^verbatim>\<open>===\<close> on a string literal.\<close>

definition successCondition :: "jsval \<Rightarrow> bool" where
  "successCondition status = (status = String ''ready'')"

definition abortCondition :: "jsval \<Rightarrow> bool" where
  "abortCondition status = (status = String ''abort'')"

text \<open>The configuration object of lines 116 to 128.\<close>

definition demoConf :: config where
  "demoConf = \<lparr>maxTries = Number (Finite 20), pollTime = Number (Finite 100),
               onSuccess = 0, onFail = 1, onTic = Function 2, rest = []\<rparr>"

text \<open>
  With this fetcher every fetch is followed at once by its callback. The state of the
  demonstration is the launcher together with \<^verbatim>\<open>reqCount\<close>.
\<close>

definition fetchNow :: "nat \<Rightarrow> launcher \<times> nat \<Rightarrow> launcher \<times> nat" where
  "fetchNow i st =
     (let (res, reqCount) = getStatus (snd st)
      in (step successCondition abortCondition (fst st) (Deliver i res), reqCount))"

definition demoLaunch :: "config \<Rightarrow> launcher \<times> nat \<Rightarrow> launcher \<times> nat" where
  "demoLaunch c st =
     fetchNow (length (sessions (fst st)))
       (step successCondition abortCondition (fst st) (Launch c), snd st)"

definition demoTimer :: "nat \<Rightarrow> launcher \<times> nat \<Rightarrow> launcher \<times> nat" where
  "demoTimer i st =
     (if enabled (fst st) (Timer i)
      then fetchNow i (step successCondition abortCondition (fst st) (Timer i), snd st)
      else st)"

fun demoRun :: "nat \<Rightarrow> launcher \<times> nat \<Rightarrow> launcher \<times> nat" where
  "demoRun 0 st = st"
| "demoRun (Suc n) st = demoRun n (demoTimer 0 st)"

text \<open>A result whose status is \<^verbatim>\<open>'notReady'\<close>, as the fetcher produces it.\<close>

definition notReady :: jsval where
  "notReady = Object [(''status'', String ''notReady'')]"

text \<open>
  The state of the demonstration while its only session waits for its timer, after \<open>n\<close>
  fetches: both counters stand at \<open>n\<close> and no terminal callback has been called.
\<close>

definition polling :: "nat \<Rightarrow> launcher \<times> nat \<Rightarrow> bool" where
  "polling n st \<longleftrightarrow>
     snd st = n \<and> testCount (fst st) = n \<and> length (sessions (fst st)) = 1
   \<and> phase (sessions (fst st) ! 0) = Waiting \<and> timers (sessions (fst st) ! 0) = 1
   \<and> maxTries (conf (sessions (fst st) ! 0)) = Number (Finite 20)
   \<and> fetches (sessions (fst st) ! 0) = n
   \<and> terminalCalls (sessions (fst st) ! 0) = 0"

section \<open>The launcher of \<^verbatim>\<open>createStatusPollFunction\<close>\<close>

text \<open>
  The second script of \<^verbatim>\<open>src/unnamed/part_000\<close> is the same poller with two differences.
  \<^verbatim>\<open>testCount\<close> is declared inside the returned function (line 171), so a session carries
  its own counter and the launcher has no state besides its sessions; and the completion
  handler (lines 192 to 215) passes the fetcher's result itself to the two predicates,
  which it calls before \<^verbatim>\<open>onTic\<close>.
\<close>

type_synonym counted = "nat \<times> session"

definition performStatusCheck2 :: "counted \<Rightarrow> counted" where
  "performStatusCheck2 ns = (fst ns + 1, startFetch (snd ns))"

definition statusCallback2 ::
  "(jsval \<Rightarrow> bool) \<Rightarrow> (jsval \<Rightarrow> bool) \<Rightarrow> jsval \<Rightarrow> counted \<Rightarrow> counted" where
  "statusCallback2 statusResultSuccess statusResultAbort res ns =
     (let testCount = fst ns; s = snd ns;
          canStillTry = js_less (Number (Finite (of_nat testCount))) (maxTries (conf s));
          succeeded = statusResultSuccess res;
          aborted = statusResultAbort res;
          calls = [StatusResultSuccess res, StatusResultAbort res]
                  @ (if typeof (onTic (conf s)) = ''function'' then [OnTic res testCount] else [])
      in if canStillTry \<and> \<not> succeeded \<and> \<not> aborted
         then (testCount,
               s\<lparr>phase := Waiting, trace := trace s @ calls @ [SetTimeout (pollTime (conf s))],
                 timers := timers s + 1\<rparr>)
         else if succeeded
           then (testCount, s\<lparr>phase := Terminated, trace := trace s @ calls @ [OnSuccess]\<rparr>)
           else (testCount, s\<lparr>phase := Terminated, trace := trace s @ calls @ [OnFail]\<rparr>))"

definition createStatusPollFunction :: "counted list" where
  "createStatusPollFunction = []"

definition launch2 :: "config \<Rightarrow> counted list \<Rightarrow> counted list" where
  "launch2 c l =
     l @ [performStatusCheck2 (0, \<lparr>conf = validate c, phase = Idle, trace = [], timers = 0\<rparr>)]"

fun step2 :: "(jsval \<Rightarrow> bool) \<Rightarrow> (jsval \<Rightarrow> bool) \<Rightarrow> counted list \<Rightarrow> input \<Rightarrow> counted list" where
  "step2 S A l (Launch c) = launch2 c l"
| "step2 S A l (Deliver i res) =
     (if i < length l then l[i := statusCallback2 S A res (l ! i)] else l)"
| "step2 S A l (Timer i) =
     (if i < length l \<and> 0 < timers (snd (l ! i))
      then l[i := performStatusCheck2 (fst (l ! i), fire (snd (l ! i)))] else l)"

fun exec2 :: "(jsval \<Rightarrow> bool) \<Rightarrow> (jsval \<Rightarrow> bool) \<Rightarrow> counted list \<Rightarrow> input list \<Rightarrow> counted list" where
  "exec2 S A l [] = l"
| "exec2 S A l (x # xs) = exec2 S A (step2 S A l x) xs"

text \<open>
  The predicates of its lines 232 to 237 read the status from the result themselves (on a
  result that is \<^verbatim>\<open>null\<close> or \<^verbatim>\<open>undefined\<close> they would throw; they are applied to objects).
\<close>

definition statusIs :: "string \<Rightarrow> jsval \<Rightarrow> bool" where
  "statusIs k res = (statusOf res = Some (String k))"

section \<open>How a launcher evolves\<close>

lemma exec_snoc: "exec S A l (xs @ [x]) = step S A (exec S A l xs) x"
  by (induction xs arbitrary: l) simp_all

lemma accepted_snoc:
  "accepted S A l (xs @ [x]) =
     accepted S A l xs @ (if enabled (exec S A l xs) x then [x] else [])"
  by (induction xs arbitrary: l) simp_all

lemma launch_sessions:
  "sessions (launch c l) =
     sessions l @ [\<lparr>conf = validate c, phase = Fetching, trace = [GetStatus], timers = 0\<rparr>]"
  by (simp add: launch_def performStatusCheck_def startFetch_def)

lemma launch_testCount: "testCount (launch c l) = Suc (testCount l)"
  by (simp add: launch_def performStatusCheck_def)

lemma step_length_mono: "length (sessions l) \<le> length (sessions (step S A l x))"
  by (cases x) (simp_all add: launch_sessions performStatusCheck_def)

lemma exec_length_mono: "length (sessions l) \<le> length (sessions (exec S A l xs))"
proof (induction xs arbitrary: l)
  case Nil
  show ?case by simp
next
  case (Cons x xs)
  have "length (sessions l) \<le> length (sessions (step S A l x))"
    by (rule step_length_mono)
  also have "\<dots> \<le> length (sessions (exec S A (step S A l x) xs))"
    by (rule Cons.IH)
  finally show ?case by simp
qed

lemma accepted_target_bound:
  "x \<in> set (accepted S A l xs) \<Longrightarrow> target x = Some j \<Longrightarrow> j < length (sessions (exec S A l xs))"
proof (induction xs arbitrary: l)
  case Nil
  then show ?case by simp
next
  case (Cons y ys)
  show ?case
  proof (cases "x \<in> set (accepted S A (step S A l y) ys)")
    case True
    then show ?thesis using Cons.IH Cons.prems(2) by simp
  next
    case False
    with Cons.prems(1) have xy: "x = y" and en: "enabled l y"
      by (auto split: if_splits)
    from en xy Cons.prems(2) have "j < length (sessions l)"
      by (cases y) auto
    also have "\<dots> \<le> length (sessions (step S A l y))" by (rule step_length_mono)
    also have "\<dots> \<le> length (sessions (exec S A (step S A l y) ys))" by (rule exec_length_mono)
    finally show ?thesis by simp
  qed
qed

lemma own_fresh:
  "length (sessions (exec S A l xs)) \<le> i \<Longrightarrow> own i (accepted S A l xs) = []"
  unfolding own_def filter_empty_conv
  using accepted_target_bound [of _ S A l xs i] by fastforce

lemma step_disabled: "\<not> enabled l x \<Longrightarrow> step S A l x = l"
  by (cases x) auto

lemma step_Deliver:
  assumes "enabled l (Deliver j r)"
  shows "testCount (step S A l (Deliver j r)) = testCount l"
    and "length (sessions (step S A l (Deliver j r))) = length (sessions l)"
    and "sessions (step S A l (Deliver j r)) ! j = statusCallback S A (testCount l) r (sessions l ! j)"
    and "i \<noteq> j \<Longrightarrow> sessions (step S A l (Deliver j r)) ! i = sessions l ! i"
  using assms by auto

lemma step_Timer:
  assumes "enabled l (Timer j)"
  shows "testCount (step S A l (Timer j)) = Suc (testCount l)"
    and "length (sessions (step S A l (Timer j))) = length (sessions l)"
    and "sessions (step S A l (Timer j)) ! j = startFetch (fire (sessions l ! j))"
    and "i \<noteq> j \<Longrightarrow> sessions (step S A l (Timer j)) ! i = sessions l ! i"
  using assms by (simp_all add: performStatusCheck_def)

lemma history_snoc:
  "history S A (xs @ [x]) i =
     history S A xs i @
       (if enabled (exec S A pollForStatus xs) x \<and> target x = Some i then [x] else [])"
  unfolding history_def own_def accepted_snoc
  by (cases "enabled (exec S A pollForStatus xs) x") simp_all

lemma session_induct [consumes 1, case_names Launch Deliver Timer Other]:
  assumes len: "i < length (sessions (exec S A pollForStatus ins))"
    and new: "\<And>c t. Q (Suc t)
                    \<lparr>conf = validate c, phase = Fetching, trace = [GetStatus], timers = 0\<rparr> []"
    and deliver: "\<And>t s h r. Q t s h \<Longrightarrow> Q t (statusCallback S A t r s) (h @ [Deliver i r])"
    and timer: "\<And>t s h. Q t s h \<Longrightarrow> 0 < timers s \<Longrightarrow>
                    Q (Suc t) (startFetch (fire s)) (h @ [Timer i])"
    and other: "\<And>t s h. Q t s h \<Longrightarrow> Q (Suc t) s h"
  shows "Q (testCount (exec S A pollForStatus ins))
           (sessions (exec S A pollForStatus ins) ! i)
           (history S A ins i)"
  using len supply step.simps [simp del]
proof (induction ins rule: rev_induct)
  case Nil
  then show ?case by (simp add: pollForStatus_def)
next
  case (snoc x xs)
  let ?l = "exec S A pollForStatus xs"
  let ?h = "history S A xs i"
  have IH: "i < length (sessions ?l) \<Longrightarrow> Q (testCount ?l) (sessions ?l ! i) ?h"
    by (rule snoc.IH)
  have ex: "exec S A pollForStatus (xs @ [x]) = step S A ?l x"
    by (rule exec_snoc)
  show ?case
  proof (cases "enabled ?l x")
    case False
    then have "step S A ?l x = ?l" by (rule step_disabled)
    moreover have "history S A (xs @ [x]) i = ?h" using False by (simp add: history_snoc)
    ultimately show ?thesis using IH snoc.prems by (simp add: ex)
  next
    case en: True
    show ?thesis
    proof (cases x)
      case (Launch c)
      note ex = ex [unfolded Launch]
      have h: "history S A (xs @ [Launch c]) i = ?h"
        by (simp add: history_snoc)
      show ?thesis
      proof (cases "i < length (sessions ?l)")
        case True
        then have "Q (Suc (testCount ?l)) (sessions ?l ! i) ?h"
          using IH other by blast
        then show ?thesis using True
          unfolding Launch by (simp add: ex h launch_sessions launch_testCount nth_append step.simps)
      next
        case False
        with snoc.prems have i: "i = length (sessions ?l)"
          unfolding Launch by (simp add: ex launch_sessions step.simps)
        have "?h = []" unfolding history_def using False by (simp add: own_fresh)
        with h have "history S A (xs @ [Launch c]) i = []" by simp
        then show ?thesis using new [of "testCount ?l" c]
          unfolding Launch by (simp add: ex launch_sessions launch_testCount i step.simps)
      qed
    next
      case (Deliver j r)
      note ex = ex [unfolded Deliver]
      from en have en': "enabled ?l (Deliver j r)" by (simp add: Deliver)
      from snoc.prems have i: "i < length (sessions ?l)"
        unfolding Deliver by (simp add: ex step_Deliver(2) [OF en'])
      show ?thesis
      proof (cases "j = i")
        case True
        have h: "history S A (xs @ [Deliver j r]) i = ?h @ [Deliver i r]"
          using en' by (simp add: history_snoc True)
        have "Q (testCount ?l) (statusCallback S A (testCount ?l) r (sessions ?l ! i)) (?h @ [Deliver i r])"
          using IH [OF i] by (intro deliver)
        then show ?thesis
          using step_Deliver(1,3) [OF en', of S A] ex h unfolding Deliver True by simp
      next
        case False
        have h: "history S A (xs @ [Deliver j r]) i = ?h"
          using False by (simp add: history_snoc)
        from False have "i \<noteq> j" by simp
        then show ?thesis
          using IH [OF i] step_Deliver(1) [OF en', of S A] step_Deliver(4) [OF en', of i S A]
          unfolding Deliver by (simp add: ex h)
      qed
    next
      case (Timer j)
      note ex = ex [unfolded Timer]
      from en have en': "enabled ?l (Timer j)" by (simp add: Timer)
      from snoc.prems have i: "i < length (sessions ?l)"
        unfolding Timer by (simp add: ex step_Timer(2) [OF en'])
      show ?thesis
      proof (cases "j = i")
        case True
        have h: "history S A (xs @ [Timer j]) i = ?h @ [Timer i]"
          using en' by (simp add: history_snoc True)
        have "Q (Suc (testCount ?l)) (startFetch (fire (sessions ?l ! i))) (?h @ [Timer i])"
          using IH [OF i] en' True by (intro timer) simp_all
        then show ?thesis
          using step_Timer(1,3) [OF en', of S A] ex h unfolding Timer True by simp
      next
        case False
        have h: "history S A (xs @ [Timer j]) i = ?h"
          using False by (simp add: history_snoc)
        from False have "i \<noteq> j" by simp
        then show ?thesis
          using other [OF IH [OF i]] step_Timer(1) [OF en', of S A] step_Timer(4) [OF en', of i S A]
          unfolding Timer by (simp add: ex h)
      qed
    qed
  qed
qed

section \<open>Facts about one session\<close>

text \<open>
  The first rule below follows one session through any run. The second follows it through
  the runs in which the fetcher keeps its contract for that session: there the session
  alternates between one outstanding fetch and one pending timer until it ends.
\<close>

lemma results_append: "results (xs @ ys) = results xs @ results ys"
  by (induction xs rule: results.induct) simp_all

lemma owed_append: "owed n (xs @ ys) = owed (owed n xs) ys"
  by (induction n xs rule: owed.induct) simp_all

lemma oncePerFetch_append:
  "oncePerFetch n (xs @ ys) \<longleftrightarrow> oncePerFetch n xs \<and> oncePerFetch (owed n xs) ys"
  by (induction n xs rule: oncePerFetch.induct) (auto simp add: owed_append)

lemma validate_maxTries:
  "maxTries (validate c) =
     (if typeof (maxTries c) \<noteq> ''number'' \<or> js_less (maxTries c) (Number (Finite 1))
      then Number (Finite 10) else maxTries c)"
  by (simp add: validate_def Let_def)

lemma validate_pollTime:
  "pollTime (validate c) =
     (if typeof (pollTime c) \<noteq> ''number'' \<or> js_less (pollTime c) (Number (Finite 1))
      then Number (Finite 100) else pollTime c)"
  by (auto simp add: validate_def Let_def)

lemma validate_frame:
  "onSuccess (validate c) = onSuccess c" "onFail (validate c) = onFail c"
  "onTic (validate c) = onTic c" "rest (validate c) = rest c"
  by (simp_all add: validate_def Let_def)

lemma validate_finite: "maxTries (validate c) = Number (Finite q) \<Longrightarrow> 1 \<le> q"
  by (auto simp add: validate_maxTries split: if_splits)

lemma statusCallback_conf [simp]: "conf (statusCallback S A t r s) = conf s"
  by (simp add: statusCallback_def Let_def split: option.splits)

lemma startFetch_conf [simp]: "conf (startFetch s) = conf s"
  by (simp add: startFetch_def)

lemma startFetch_phase [simp]: "phase (startFetch s) = Fetching"
  by (simp add: startFetch_def)

lemma startFetch_trace [simp]: "trace (startFetch s) = trace s @ [GetStatus]"
  by (simp add: startFetch_def)

lemma startFetch_timers [simp]: "timers (startFetch s) = timers s"
  by (simp add: startFetch_def)

lemma fire_simps [simp]:
  "conf (fire s) = conf s" "phase (fire s) = phase s" "trace (fire s) = trace s"
  "timers (fire s) = timers s - 1"
  by (simp_all add: fire_def)

lemma statusCallback_phase:
  "phase (statusCallback S A t r s) =
     (case statusOf r of
        None \<Rightarrow> Thrown
      | Some v \<Rightarrow>
          if js_less (Number (Finite (of_nat t))) (maxTries (conf s)) \<and> \<not> S v \<and> \<not> A v
          then Waiting else Terminated)"
  by (simp add: statusCallback_def Let_def split: option.splits)

lemma statusCallback_trace:
  "trace (statusCallback S A t r s) =
     trace s
     @ (if typeof (onTic (conf s)) = ''function'' then [OnTic r t] else [])
     @ (case statusOf r of
          None \<Rightarrow> [TypeError]
        | Some v \<Rightarrow>
            [StatusResultSuccess v, StatusResultAbort v,
             if js_less (Number (Finite (of_nat t))) (maxTries (conf s)) \<and> \<not> S v \<and> \<not> A v
             then SetTimeout (pollTime (conf s))
             else if S v then OnSuccess else OnFail])"
  by (simp add: statusCallback_def Let_def split: option.splits)

lemma statusCallback_timers:
  "timers (statusCallback S A t r s) =
     (if phase (statusCallback S A t r s) = Waiting then Suc (timers s) else timers s)"
  by (simp add: statusCallback_def Let_def split: option.splits)

lemma below_ceiling: "of_nat t < (q::rat) \<Longrightarrow> t < nat \<lceil>q\<rceil>"
proof -
  assume "of_nat t < q"
  also have "q \<le> of_int \<lceil>q\<rceil>" by (rule le_of_int_ceiling)
  finally have "(of_int (int t) :: rat) < of_int \<lceil>q\<rceil>" by simp
  then have "int t < \<lceil>q\<rceil>" by (simp only: of_int_less_iff)
  then show ?thesis by linarith
qed

lemma session_induct_once [consumes 2, case_names Launch Deliver Timer Other]:
  assumes len: "i < length (sessions (exec S A pollForStatus ins))"
    and once: "oncePerFetch 1 (history S A ins i)"
    and new: "\<And>c t. Q (Suc t)
                    \<lparr>conf = validate c, phase = Fetching, trace = [GetStatus], timers = 0\<rparr> []"
    and deliver: "\<And>t s h r. Q t s h \<Longrightarrow> phase s = Fetching \<Longrightarrow> timers s = 0 \<Longrightarrow>
                    owed 1 h = 1 \<Longrightarrow> Q t (statusCallback S A t r s) (h @ [Deliver i r])"
    and timer: "\<And>t s h. Q t s h \<Longrightarrow> phase s = Waiting \<Longrightarrow> timers s = 1 \<Longrightarrow>
                    owed 1 h = 0 \<Longrightarrow> Q (Suc t) (startFetch (fire s)) (h @ [Timer i])"
    and other: "\<And>t s h. Q t s h \<Longrightarrow> Q (Suc t) s h"
  shows "Q (testCount (exec S A pollForStatus ins))
           (sessions (exec S A pollForStatus ins) ! i)
           (history S A ins i)
       \<and> owed 1 (history S A ins i) = (if phase (sessions (exec S A pollForStatus ins) ! i) = Fetching then 1 else 0)
       \<and> timers (sessions (exec S A pollForStatus ins) ! i) = (if phase (sessions (exec S A pollForStatus ins) ! i) = Waiting then 1 else 0)
       \<and> phase (sessions (exec S A pollForStatus ins) ! i) \<noteq> Idle"
proof -
  let ?P = "\<lambda>t s h. oncePerFetch 1 h \<longrightarrow>
      Q t s h \<and> owed 1 h = (if phase s = Fetching then 1 else 0)
    \<and> timers s = (if phase s = Waiting then 1 else 0) \<and> phase s \<noteq> Idle"
  from len have "?P (testCount (exec S A pollForStatus ins))
           (sessions (exec S A pollForStatus ins) ! i) (history S A ins i)"
  proof (induction rule: session_induct)
    case (Launch c t)
    show ?case using new by simp
  next
    case (Deliver t s h r)
    show ?case
    proof
      assume "oncePerFetch 1 (h @ [Deliver i r])"
      then have o: "oncePerFetch 1 h" and pos: "0 < owed 1 h"
        by (simp_all add: oncePerFetch_append)
      with Deliver have q: "Q t s h" and ph: "phase s = Fetching" and ow: "owed 1 h = 1"
        and tm: "timers s = 0"
        by (auto split: if_splits)
      have "Q t (statusCallback S A t r s) (h @ [Deliver i r])"
        using q ph tm ow by (rule deliver)
      moreover have "phase (statusCallback S A t r s) \<noteq> Fetching"
        "phase (statusCallback S A t r s) \<noteq> Idle"
        by (simp_all add: statusCallback_phase split: option.splits)
      moreover have "owed 1 (h @ [Deliver i r]) = 0" using ow by (simp add: owed_append)
      ultimately show "Q t (statusCallback S A t r s) (h @ [Deliver i r])
          \<and> owed 1 (h @ [Deliver i r]) = (if phase (statusCallback S A t r s) = Fetching then 1 else 0)
          \<and> timers (statusCallback S A t r s) = (if phase (statusCallback S A t r s) = Waiting then 1 else 0)
          \<and> phase (statusCallback S A t r s) \<noteq> Idle"
        using tm by (simp add: statusCallback_timers)
    qed
  next
    case (Timer t s h)
    show ?case
    proof
      assume "oncePerFetch 1 (h @ [Timer i])"
      then have o: "oncePerFetch 1 h" by (simp add: oncePerFetch_append)
      with Timer have q: "Q t s h" and ph: "phase s = Waiting" and ow: "owed 1 h = 0"
        and tm: "timers s = 1"
        by (auto split: if_splits)
      have "Q (Suc t) (startFetch (fire s)) (h @ [Timer i])"
        using q ph tm ow by (rule timer)
      then show "Q (Suc t) (startFetch (fire s)) (h @ [Timer i])
          \<and> owed 1 (h @ [Timer i]) = (if phase (startFetch (fire s)) = Fetching then 1 else 0)
          \<and> timers (startFetch (fire s)) = (if phase (startFetch (fire s)) = Waiting then 1 else 0)
          \<and> phase (startFetch (fire s)) \<noteq> Idle"
        using ow tm by (simp add: owed_append)
    qed
  next
    case (Other t s h)
    then show ?case using other by blast
  qed
  with once show ?thesis by blast
qed

lemma statuses_snoc:
  "statuses (rs @ [r]) = statuses rs @ (case statusOf r of None \<Rightarrow> [] | Some v \<Rightarrow> [v])"
  by (simp add: statuses_def List.map_filter_def split: option.splits)

lemma statuses_Nil [simp]: "statuses [] = []"
  by (simp add: statuses_def List.map_filter_def)

lemma session_safety:
  assumes "i < length (sessions (exec S A pollForStatus ins))"
    and "oncePerFetch 1 (history S A ins i)"
  shows "(phase (sessions (exec S A pollForStatus ins) ! i) \<noteq> Terminated \<longrightarrow>
            OnSuccess \<notin> set (trace (sessions (exec S A pollForStatus ins) ! i))
          \<and> OnFail \<notin> set (trace (sessions (exec S A pollForStatus ins) ! i)))
       \<and> (phase (sessions (exec S A pollForStatus ins) ! i) = Terminated \<longrightarrow>
            results (history S A ins i) \<noteq> []
          \<and> (\<exists>v. statusOf (last (results (history S A ins i))) = Some v
               \<and> count_list (trace (sessions (exec S A pollForStatus ins) ! i)) OnSuccess
                   = (if S v then 1 else 0)
               \<and> count_list (trace (sessions (exec S A pollForStatus ins) ! i)) OnFail
                   = (if S v then 0 else 1)))
       \<and> (phase (sessions (exec S A pollForStatus ins) ! i) = Thrown \<longrightarrow>
            results (history S A ins i) \<noteq> []
          \<and> statusOf (last (results (history S A ins i))) = None)"
proof -
  let ?Q = "\<lambda>(t::nat) s h.
      (phase s \<noteq> Terminated \<longrightarrow> OnSuccess \<notin> set (trace s) \<and> OnFail \<notin> set (trace s))
    \<and> (phase s = Terminated \<longrightarrow> results h \<noteq> []
          \<and> (\<exists>v. statusOf (last (results h)) = Some v
               \<and> count_list (trace s) OnSuccess = (if S v then 1 else 0)
               \<and> count_list (trace s) OnFail = (if S v then 0 else 1)))
    \<and> (phase s = Thrown \<longrightarrow> results h \<noteq> [] \<and> statusOf (last (results h)) = None)"
  from assms have "?Q (testCount (exec S A pollForStatus ins))
      (sessions (exec S A pollForStatus ins) ! i) (history S A ins i)
    \<and> owed 1 (history S A ins i) = (if phase (sessions (exec S A pollForStatus ins) ! i) = Fetching then 1 else 0)
    \<and> timers (sessions (exec S A pollForStatus ins) ! i) = (if phase (sessions (exec S A pollForStatus ins) ! i) = Waiting then 1 else 0)
    \<and> phase (sessions (exec S A pollForStatus ins) ! i) \<noteq> Idle"
  proof (rule session_induct_once [where Q = ?Q], goal_cases)
    case (1 c t)
    show ?case by simp
  next
    case (2 t s h r)
    then have none: "OnSuccess \<notin> set (trace s)" "OnFail \<notin> set (trace s)" by simp_all
    show ?case
    proof (cases "statusOf r")
      case None
      with none show ?thesis
        by (simp add: statusCallback_phase statusCallback_trace results_append)
    next
      case (Some v)
      with none show ?thesis
        by (simp add: statusCallback_phase statusCallback_trace results_append)
    qed
  next
    case (3 t s h)
    then show ?case by (simp add: results_append)
  next
    case (4 t s h)
    then show ?case by simp
  qed
  then show ?thesis by blast
qed

lemma session_shape:
  assumes "i < length (sessions (exec S A pollForStatus ins))"
    and "oncePerFetch 1 (history S A ins i)"
  shows "owed 1 (history S A ins i)
           = (if phase (sessions (exec S A pollForStatus ins) ! i) = Fetching then 1 else 0)
       \<and> timers (sessions (exec S A pollForStatus ins) ! i)
           = (if phase (sessions (exec S A pollForStatus ins) ! i) = Waiting then 1 else 0)
       \<and> phase (sessions (exec S A pollForStatus ins) ! i) \<noteq> Idle
       \<and> (phase (sessions (exec S A pollForStatus ins) ! i) = Fetching \<longrightarrow>
            last (trace (sessions (exec S A pollForStatus ins) ! i)) = GetStatus)
       \<and> (phase (sessions (exec S A pollForStatus ins) ! i) = Waiting \<longrightarrow>
            last (trace (sessions (exec S A pollForStatus ins) ! i))
              = SetTimeout (pollTime (conf (sessions (exec S A pollForStatus ins) ! i))))"
proof -
  let ?Q = "\<lambda>(t::nat) s (h::input list).
      (phase s = Fetching \<longrightarrow> last (trace s) = GetStatus)
    \<and> (phase s = Waiting \<longrightarrow> last (trace s) = SetTimeout (pollTime (conf s)))"
  from assms have "?Q (testCount (exec S A pollForStatus ins))
      (sessions (exec S A pollForStatus ins) ! i) (history S A ins i)
    \<and> owed 1 (history S A ins i) = (if phase (sessions (exec S A pollForStatus ins) ! i) = Fetching then 1 else 0)
    \<and> timers (sessions (exec S A pollForStatus ins) ! i) = (if phase (sessions (exec S A pollForStatus ins) ! i) = Waiting then 1 else 0)
    \<and> phase (sessions (exec S A pollForStatus ins) ! i) \<noteq> Idle"
  proof (rule session_induct_once [where Q = ?Q], goal_cases)
    case (1 c t)
    show ?case by simp
  next
    case (2 t s h r)
    show ?case
      by (simp add: statusCallback_phase statusCallback_trace split: option.splits)
  next
    case (3 t s h)
    show ?case by simp
  next
    case (4 t s h)
    then show ?case by simp
  qed
  then show ?thesis by blast
qed

lemma session_fetch_bound:
  assumes "i < length (sessions (exec S A pollForStatus ins))"
    and "oncePerFetch 1 (history S A ins i)"
  shows "\<forall>q. maxTries (conf (sessions (exec S A pollForStatus ins) ! i)) = Number (Finite q) \<longrightarrow>
           1 \<le> q
         \<and> fetches (sessions (exec S A pollForStatus ins) ! i) \<le> testCount (exec S A pollForStatus ins)
         \<and> (phase (sessions (exec S A pollForStatus ins) ! i) = Waiting \<longrightarrow>
              of_nat (fetches (sessions (exec S A pollForStatus ins) ! i)) < q)
         \<and> fetches (sessions (exec S A pollForStatus ins) ! i) \<le> nat \<lceil>q\<rceil>"
proof -
  let ?Q = "\<lambda>t s (h::input list). \<forall>q. maxTries (conf s) = Number (Finite q) \<longrightarrow>
      1 \<le> q \<and> fetches s \<le> t \<and> (phase s = Waiting \<longrightarrow> of_nat (fetches s) < q)
    \<and> fetches s \<le> nat \<lceil>q\<rceil>"
  from assms have "?Q (testCount (exec S A pollForStatus ins))
      (sessions (exec S A pollForStatus ins) ! i) (history S A ins i)
    \<and> owed 1 (history S A ins i) = (if phase (sessions (exec S A pollForStatus ins) ! i) = Fetching then 1 else 0)
    \<and> timers (sessions (exec S A pollForStatus ins) ! i) = (if phase (sessions (exec S A pollForStatus ins) ! i) = Waiting then 1 else 0)
    \<and> phase (sessions (exec S A pollForStatus ins) ! i) \<noteq> Idle"
  proof (rule session_induct_once [where Q = ?Q], goal_cases)
    case (1 c t)
    show ?case
    proof (intro allI impI)
      fix q
      assume "maxTries (conf \<lparr>conf = validate c, phase = Fetching, trace = [GetStatus], timers = 0\<rparr>)
                = Number (Finite q)"
      then have "1 \<le> q" by (simp add: validate_finite)
      moreover from this have "1 \<le> nat \<lceil>q\<rceil>" by linarith
      ultimately show "1 \<le> q
          \<and> fetches \<lparr>conf = validate c, phase = Fetching, trace = [GetStatus], timers = 0\<rparr> \<le> Suc t
          \<and> (phase \<lparr>conf = validate c, phase = Fetching, trace = [GetStatus], timers = 0\<rparr> = Waiting \<longrightarrow>
               of_nat (fetches \<lparr>conf = validate c, phase = Fetching, trace = [GetStatus], timers = 0\<rparr>) < q)
          \<and> fetches \<lparr>conf = validate c, phase = Fetching, trace = [GetStatus], timers = 0\<rparr> \<le> nat \<lceil>q\<rceil>"
        by (simp add: fetches_def)
    qed
  next
    case (2 t s h r)
    show ?case
    proof (intro allI impI)
      fix q assume "maxTries (conf (statusCallback S A t r s)) = Number (Finite q)"
      then have m: "maxTries (conf s) = Number (Finite q)" by simp
      with 2 have old: "1 \<le> q" "fetches s \<le> t" "fetches s \<le> nat \<lceil>q\<rceil>" by auto
      have f: "fetches (statusCallback S A t r s) = fetches s"
        by (simp add: fetches_def statusCallback_trace split: option.splits)
      have "of_nat (fetches s) < q" if "phase (statusCallback S A t r s) = Waiting"
      proof -
        from that have "of_nat t < q"
          by (simp add: statusCallback_phase m split: option.splits if_splits)
        moreover have "(of_nat (fetches s) :: rat) \<le> of_nat t" using old(2) by simp
        ultimately show ?thesis by linarith
      qed
      with old show "1 \<le> q \<and> fetches (statusCallback S A t r s) \<le> t
          \<and> (phase (statusCallback S A t r s) = Waiting \<longrightarrow>
               of_nat (fetches (statusCallback S A t r s)) < q)
          \<and> fetches (statusCallback S A t r s) \<le> nat \<lceil>q\<rceil>"
        by (simp add: f)
    qed
  next
    case (3 t s h)
    show ?case
    proof (intro allI impI)
      fix q assume "maxTries (conf (startFetch (fire s))) = Number (Finite q)"
      then have m: "maxTries (conf s) = Number (Finite q)" by simp
      with 3 have old: "1 \<le> q" "fetches s \<le> t" "of_nat (fetches s) < q" by auto
      have f: "fetches (startFetch (fire s)) = Suc (fetches s)" by (simp add: fetches_def)
      from old(3) have "fetches s < nat \<lceil>q\<rceil>" by (rule below_ceiling)
      with old show "1 \<le> q \<and> fetches (startFetch (fire s)) \<le> Suc t
          \<and> (phase (startFetch (fire s)) = Waiting \<longrightarrow> of_nat (fetches (startFetch (fire s))) < q)
          \<and> fetches (startFetch (fire s)) \<le> nat \<lceil>q\<rceil>"
        by (simp add: f)
    qed
  next
    case (4 t s h)
    then show ?case by auto
  qed
  then show ?thesis by blast
qed

lemma remaining_mono: "remaining k (Suc t) p \<le> remaining k t p"
  by (cases p) auto

lemma session_progress:
  assumes "i < length (sessions (exec S A pollForStatus ins))"
    and "oncePerFetch 1 (history S A ins i)"
  shows "\<forall>q. maxTries (conf (sessions (exec S A pollForStatus ins) ! i)) = Number (Finite q) \<longrightarrow>
           length (history S A ins i)
             + remaining (nat \<lceil>q\<rceil>) (testCount (exec S A pollForStatus ins))
                 (phase (sessions (exec S A pollForStatus ins) ! i)) + 1
           \<le> 2 * nat \<lceil>q\<rceil>"
proof -
  let ?Q = "\<lambda>t s (h::input list). \<forall>q. maxTries (conf s) = Number (Finite q) \<longrightarrow>
      length h + remaining (nat \<lceil>q\<rceil>) t (phase s) + 1 \<le> 2 * nat \<lceil>q\<rceil>"
  from assms have "?Q (testCount (exec S A pollForStatus ins))
      (sessions (exec S A pollForStatus ins) ! i) (history S A ins i)
    \<and> owed 1 (history S A ins i) = (if phase (sessions (exec S A pollForStatus ins) ! i) = Fetching then 1 else 0)
    \<and> timers (sessions (exec S A pollForStatus ins) ! i) = (if phase (sessions (exec S A pollForStatus ins) ! i) = Waiting then 1 else 0)
    \<and> phase (sessions (exec S A pollForStatus ins) ! i) \<noteq> Idle"
  proof (rule session_induct_once [where Q = ?Q], goal_cases)
    case (1 c t)
    show ?case
    proof (intro allI impI)
      fix q
      assume "maxTries (conf \<lparr>conf = validate c, phase = Fetching, trace = [GetStatus], timers = 0\<rparr>)
                = Number (Finite q)"
      then have "1 \<le> q" by (simp add: validate_finite)
      then have "1 \<le> nat \<lceil>q\<rceil>" by linarith
      then show "length ([]::input list)
          + remaining (nat \<lceil>q\<rceil>) (Suc t)
              (phase \<lparr>conf = validate c, phase = Fetching, trace = [GetStatus], timers = 0\<rparr>) + 1
          \<le> 2 * nat \<lceil>q\<rceil>"
        by simp
    qed
  next
    case (2 t s h r)
    show ?case
    proof (intro allI impI)
      fix q assume "maxTries (conf (statusCallback S A t r s)) = Number (Finite q)"
      then have m: "maxTries (conf s) = Number (Finite q)" by simp
      with 2 have old: "length h + (2 * (nat \<lceil>q\<rceil> - t) + 1) + 1 \<le> 2 * nat \<lceil>q\<rceil>" by auto
      show "length (h @ [Deliver i r])
          + remaining (nat \<lceil>q\<rceil>) t (phase (statusCallback S A t r s)) + 1 \<le> 2 * nat \<lceil>q\<rceil>"
      proof (cases "phase (statusCallback S A t r s) = Waiting")
        case True
        then have "of_nat t < q"
          by (simp add: statusCallback_phase m split: option.splits if_splits)
        then have "t < nat \<lceil>q\<rceil>" by (rule below_ceiling)
        with old True show ?thesis by simp
      next
        case False
        then have "phase (statusCallback S A t r s) = Terminated
            \<or> phase (statusCallback S A t r s) = Thrown"
          by (cases "statusOf r") (auto simp add: statusCallback_phase split: if_splits)
        with old show ?thesis by auto
      qed
    qed
  next
    case (3 t s h)
    show ?case
    proof (intro allI impI)
      fix q assume "maxTries (conf (startFetch (fire s))) = Number (Finite q)"
      then have m: "maxTries (conf s) = Number (Finite q)" by simp
      with 3 have "length h + 2 * max (nat \<lceil>q\<rceil> - t) 1 + 1 \<le> 2 * nat \<lceil>q\<rceil>" by auto
      then show "length (h @ [Timer i])
          + remaining (nat \<lceil>q\<rceil>) (Suc t) (phase (startFetch (fire s))) + 1 \<le> 2 * nat \<lceil>q\<rceil>"
        by (simp add: max_def split: if_splits)
    qed
  next
    case (4 t s h)
    show ?case
    proof (intro allI impI)
      fix q assume m: "maxTries (conf s) = Number (Finite q)"
      with 4 have "length h + remaining (nat \<lceil>q\<rceil>) t (phase s) + 1 \<le> 2 * nat \<lceil>q\<rceil>" by simp
      moreover have "remaining (nat \<lceil>q\<rceil>) (Suc t) (phase s) \<le> remaining (nat \<lceil>q\<rceil>) t (phase s)"
        by (rule remaining_mono)
      ultimately show "length h + remaining (nat \<lceil>q\<rceil>) (Suc t) (phase s) + 1 \<le> 2 * nat \<lceil>q\<rceil>"
        by linarith
    qed
  qed
  then show ?thesis by blast
qed

lemma ticArgs_append [simp]: "ticArgs (xs @ ys) = ticArgs xs @ ticArgs ys"
  by (simp add: ticArgs_def)

lemma successArgs_append [simp]: "successArgs (xs @ ys) = successArgs xs @ successArgs ys"
  by (simp add: successArgs_def)

lemma abortArgs_append [simp]: "abortArgs (xs @ ys) = abortArgs xs @ abortArgs ys"
  by (simp add: abortArgs_def)

lemma session_arguments:
  assumes "i < length (sessions (exec S A pollForStatus ins))"
  shows "map fst (ticArgs (trace (sessions (exec S A pollForStatus ins) ! i))) =
           (if typeof (onTic (conf (sessions (exec S A pollForStatus ins) ! i))) = ''function''
            then results (history S A ins i) else [])
       \<and> successArgs (trace (sessions (exec S A pollForStatus ins) ! i))
           = statuses (results (history S A ins i))
       \<and> abortArgs (trace (sessions (exec S A pollForStatus ins) ! i))
           = statuses (results (history S A ins i))"
  using assms
proof (induction rule: session_induct)
  case (Launch c t)
  show ?case by (simp add: ticArgs_def successArgs_def abortArgs_def)
next
  case (Deliver t s h r)
  then show ?case
    by (simp add: statusCallback_trace results_append statuses_snoc
        ticArgs_def successArgs_def abortArgs_def split: option.splits)
next
  case (Timer t s h)
  then show ?case
    by (simp add: results_append ticArgs_def successArgs_def abortArgs_def)
next
  case (Other t s h)
  then show ?case by simp
qed


section \<open>Evaluation\<close>

text \<open>
  The definitions that a run on concrete inputs unfolds.
\<close>

lemmas run_defs = pollForStatus_def launch_def performStatusCheck_def startFetch_def fire_def
  statusCallback_def validate_def getProp_def Let_def demoConf_def notReady_def
  successCondition_def abortCondition_def history_def own_def
  fetches_def terminalCalls_def ticArgs_def successArgs_def abortArgs_def
  statuses_def List.map_filter_def

section \<open>Validation of the configuration object\<close>

lemma validate_maxTries_invalid:
  "typeof v \<noteq> ''number'' \<or> js_less v (Number (Finite 1)) \<Longrightarrow>
   validate (c\<lparr>maxTries := v\<rparr>) = validate (c\<lparr>maxTries := Number (Finite 10)\<rparr>)"
  by (auto simp add: validate_def Let_def)

lemma validate_pollTime_invalid:
  "typeof v \<noteq> ''number'' \<or> js_less v (Number (Finite 1)) \<Longrightarrow>
   validate (c\<lparr>pollTime := v\<rparr>) = validate (c\<lparr>pollTime := Number (Finite 100)\<rparr>)"
  by (auto simp add: validate_def Let_def)

lemma launch_cong: "validate c = validate c' \<Longrightarrow> launch c l = launch c' l"
  by (simp add: launch_def)

lemma invalid_number:
  "v = Undefined \<or> typeof v \<noteq> ''number'' \<or> (\<exists>n. v = Number n \<and> num_less n (Finite 1)) \<Longrightarrow>
   typeof v \<noteq> ''number'' \<or> js_less v (Number (Finite 1))"
  by auto

text \<open>
  The test of the source is \<^verbatim>\<open>typeof\<close>: NaN has the type number and is not below 1, so
  it is kept.
\<close>

lemma NaN_is_kept: "maxTries (validate (c\<lparr>maxTries := Number NaN\<rparr>)) = Number NaN"
  by (simp add: validate_maxTries)

text \<open>
  Claim C7. A configuration whose \<^verbatim>\<open>maxTries\<close> is absent (\<^verbatim>\<open>undefined\<close>), not of type
  number, or a number below 1 starts a session whose \<^verbatim>\<open>maxTries\<close> is 10: the session may
  try again exactly at the counts below 10. The launcher is then in the very state that a
  launch with \<^verbatim>\<open>maxTries\<close> 10 leaves, so every later sequence of inputs leads to the same
  calls. The same holds for \<^verbatim>\<open>pollTime\<close> and 100, the delay of every timer the session
  sets. Nothing is raised and no callback is called by the launch: its only effect is the
  first fetch.
\<close>

theorem invalid_settings_default:
  "(v = Undefined \<or> typeof v \<noteq> ''number'' \<or> (\<exists>n. v = Number n \<and> num_less n (Finite 1)) \<longrightarrow>
      (let s = last (sessions (launch (c\<lparr>maxTries := v\<rparr>) l)) in
         maxTries (conf s) = Number (Finite 10)
       \<and> (\<forall>t. js_less (Number (Finite (of_nat t))) (maxTries (conf s)) \<longleftrightarrow> t < 10)
       \<and> phase s = Fetching \<and> trace s = [GetStatus] \<and> timers s = 0)
    \<and> launch (c\<lparr>maxTries := v\<rparr>) l = launch (c\<lparr>maxTries := Number (Finite 10)\<rparr>) l
    \<and> exec S A (launch (c\<lparr>maxTries := v\<rparr>) l) ins
        = exec S A (launch (c\<lparr>maxTries := Number (Finite 10)\<rparr>) l) ins)
 \<and> (w = Undefined \<or> typeof w \<noteq> ''number'' \<or> (\<exists>n. w = Number n \<and> num_less n (Finite 1)) \<longrightarrow>
      (let s = last (sessions (launch (c\<lparr>pollTime := w\<rparr>) l)) in
         pollTime (conf s) = Number (Finite 100)
       \<and> (\<forall>t res. phase (statusCallback S A t res s) = Waiting \<longrightarrow>
             last (trace (statusCallback S A t res s)) = SetTimeout (Number (Finite 100)))
       \<and> phase s = Fetching \<and> trace s = [GetStatus] \<and> timers s = 0)
    \<and> launch (c\<lparr>pollTime := w\<rparr>) l = launch (c\<lparr>pollTime := Number (Finite 100)\<rparr>) l
    \<and> exec S A (launch (c\<lparr>pollTime := w\<rparr>) l) ins
        = exec S A (launch (c\<lparr>pollTime := Number (Finite 100)\<rparr>) l) ins)"
proof (intro conjI impI)
  assume "v = Undefined \<or> typeof v \<noteq> ''number'' \<or> (\<exists>n. v = Number n \<and> num_less n (Finite 1))"
  then have inv: "typeof v \<noteq> ''number'' \<or> js_less v (Number (Finite 1))" by (rule invalid_number)
  then have m: "maxTries (validate (c\<lparr>maxTries := v\<rparr>)) = Number (Finite 10)"
    by (simp add: validate_maxTries)
  show "let s = last (sessions (launch (c\<lparr>maxTries := v\<rparr>) l)) in
         maxTries (conf s) = Number (Finite 10)
       \<and> (\<forall>t. js_less (Number (Finite (of_nat t))) (maxTries (conf s)) \<longleftrightarrow> t < 10)
       \<and> phase s = Fetching \<and> trace s = [GetStatus] \<and> timers s = 0"
    unfolding Let_def using m by (simp add: launch_sessions)
  from inv show eq: "launch (c\<lparr>maxTries := v\<rparr>) l = launch (c\<lparr>maxTries := Number (Finite 10)\<rparr>) l"
    by (intro launch_cong validate_maxTries_invalid)
  then show "exec S A (launch (c\<lparr>maxTries := v\<rparr>) l) ins
        = exec S A (launch (c\<lparr>maxTries := Number (Finite 10)\<rparr>) l) ins"
    by simp
next
  assume "w = Undefined \<or> typeof w \<noteq> ''number'' \<or> (\<exists>n. w = Number n \<and> num_less n (Finite 1))"
  then have inv: "typeof w \<noteq> ''number'' \<or> js_less w (Number (Finite 1))" by (rule invalid_number)
  then have m: "pollTime (validate (c\<lparr>pollTime := w\<rparr>)) = Number (Finite 100)"
    by (simp add: validate_pollTime)
  show "let s = last (sessions (launch (c\<lparr>pollTime := w\<rparr>) l)) in
         pollTime (conf s) = Number (Finite 100)
       \<and> (\<forall>t res. phase (statusCallback S A t res s) = Waiting \<longrightarrow>
             last (trace (statusCallback S A t res s)) = SetTimeout (Number (Finite 100)))
       \<and> phase s = Fetching \<and> trace s = [GetStatus] \<and> timers s = 0"
    unfolding Let_def using m
    by (auto simp add: launch_sessions statusCallback_phase statusCallback_trace
        split: option.splits if_splits)
  from inv show eq: "launch (c\<lparr>pollTime := w\<rparr>) l = launch (c\<lparr>pollTime := Number (Finite 100)\<rparr>) l"
    by (intro launch_cong validate_pollTime_invalid)
  then show "exec S A (launch (c\<lparr>pollTime := w\<rparr>) l) ins
        = exec S A (launch (c\<lparr>pollTime := Number (Finite 100)\<rparr>) l) ins"
    by simp
qed

theorem invalid_settings_default_witness:
  "maxTries (conf (last (sessions (launch (demoConf\<lparr>maxTries := Number (Finite (- 1))\<rparr>) pollForStatus))))
     = Number (Finite 10)
   \<and> exec successCondition abortCondition
      (launch (demoConf\<lparr>maxTries := Number (Finite (- 1))\<rparr>) pollForStatus) [Deliver 0 notReady]
     = exec successCondition abortCondition
      (launch (demoConf\<lparr>maxTries := Number (Finite 10)\<rparr>) pollForStatus) [Deliver 0 notReady]
   \<and> pollTime (conf (last (sessions (launch (demoConf\<lparr>pollTime := Undefined\<rparr>) pollForStatus))))
     = Number (Finite 100)
   \<and> exec successCondition abortCondition
      (launch (demoConf\<lparr>pollTime := Undefined\<rparr>) pollForStatus) [Deliver 0 notReady]
     = exec successCondition abortCondition
      (launch (demoConf\<lparr>pollTime := Number (Finite 100)\<rparr>) pollForStatus) [Deliver 0 notReady]"
proof -
  have v: "Number (Finite (- 1)) = Undefined \<or> typeof (Number (Finite (- 1))) \<noteq> ''number''
      \<or> (\<exists>n. Number (Finite (- 1)) = Number n \<and> num_less n (Finite 1))"
    by simp
  have w: "Undefined = Undefined \<or> typeof Undefined \<noteq> ''number''
      \<or> (\<exists>n. Undefined = Number n \<and> num_less n (Finite 1))"
    by simp
  from v w invalid_settings_default [of "Number (Finite (- 1))" demoConf pollForStatus
      successCondition abortCondition "[Deliver 0 notReady]" Undefined]
  show ?thesis unfolding Let_def by blast
qed

text \<open>
  Claim C9. After the launcher has run on the caller's configuration object, the object
  holds \<^verbatim>\<open>maxTries\<close> 10 where the property was absent or invalid and its given value
  otherwise, \<^verbatim>\<open>pollTime\<close> 100 likewise, and every other property as the caller set it.
\<close>

theorem launch_writes_defaults_back:
  "let c' = conf (last (sessions (launch c l))) in
     maxTries c' = (if \<exists>n. maxTries c = Number n \<and> \<not> num_less n (Finite 1)
                    then maxTries c else Number (Finite 10))
   \<and> pollTime c' = (if \<exists>n. pollTime c = Number n \<and> \<not> num_less n (Finite 1)
                    then pollTime c else Number (Finite 100))
   \<and> onSuccess c' = onSuccess c \<and> onFail c' = onFail c \<and> onTic c' = onTic c
   \<and> rest c' = rest c"
proof -
  have m: "(\<exists>n. v = Number n \<and> \<not> num_less n (Finite 1))
      \<longleftrightarrow> \<not> (typeof v \<noteq> ''number'' \<or> js_less v (Number (Finite 1)))" for v
    by (cases v) simp_all
  show ?thesis
    unfolding Let_def
    by (simp add: launch_sessions validate_maxTries validate_pollTime validate_frame m)
qed

theorem launch_writes_defaults_back_witness:
  "maxTries (conf (last (sessions (launch
      (demoConf\<lparr>maxTries := Undefined, pollTime := Number (Finite 250),
                 rest := [(''label'', String ''job'')]\<rparr>) pollForStatus)))) = Number (Finite 10)
   \<and> pollTime (conf (last (sessions (launch
      (demoConf\<lparr>maxTries := Undefined, pollTime := Number (Finite 250),
                 rest := [(''label'', String ''job'')]\<rparr>) pollForStatus)))) = Number (Finite 250)
   \<and> rest (conf (last (sessions (launch
      (demoConf\<lparr>maxTries := Undefined, pollTime := Number (Finite 250),
                 rest := [(''label'', String ''job'')]\<rparr>) pollForStatus)))) = [(''label'', String ''job'')]"
  using launch_writes_defaults_back
    [of "demoConf\<lparr>maxTries := Undefined, pollTime := Number (Finite 250),
                   rest := [(''label'', String ''job'')]\<rparr>" pollForStatus]
  by (simp add: Let_def)

section \<open>Termination and the terminal callbacks\<close>

text \<open>
  Claim C1, as amended. Take any run of a launcher of \<^verbatim>\<open>pollForStatus\<close>, and a session
  to which the fetcher calls back at most once per invocation, each time with a result
  that is neither \<^verbatim>\<open>null\<close> nor \<^verbatim>\<open>undefined\<close>. The session has called \<^verbatim>\<open>onSuccess\<close> and
  \<^verbatim>\<open>onFail\<close> at most once in total, and exactly once when it has terminated. Until then it
  waits for exactly one thing and accepts it: the callback of its one outstanding fetch,
  which it has just invoked, or its one pending timer, which it has just set. With a finite
  \<^verbatim>\<open>maxTries\<close> \<open>q\<close> it has terminated once it has taken \<open>2 * \<lceil>q\<rceil> - 1\<close> of them. So
  when every fetch is answered, exactly one of the two callbacks is called, exactly once.
\<close>

theorem exactly_one_terminal_callback:
  assumes "i < length (sessions (exec S A pollForStatus ins))"
    and "oncePerFetch 1 (history S A ins i)"
    and "\<forall>r\<in>set (results (history S A ins i)). statusOf r \<noteq> None"
  shows "let l = exec S A pollForStatus ins; s = sessions l ! i; h = history S A ins i in
           terminalCalls s \<le> 1
         \<and> (phase s = Terminated \<longleftrightarrow> terminalCalls s = 1)
         \<and> (phase s = Fetching \<and> owed 1 h = 1 \<and> timers s = 0 \<and> last (trace s) = GetStatus
                \<and> (\<forall>r. enabled l (Deliver i r))
              \<or> phase s = Waiting \<and> owed 1 h = 0 \<and> timers s = 1
                \<and> last (trace s) = SetTimeout (pollTime (conf s)) \<and> enabled l (Timer i)
              \<or> phase s = Terminated \<and> owed 1 h = 0 \<and> timers s = 0)
         \<and> (\<forall>q. maxTries (conf s) = Number (Finite q) \<longrightarrow>
                2 * nat \<lceil>q\<rceil> \<le> length h + 1 \<longrightarrow> phase s = Terminated)"
proof -
  let ?l = "exec S A pollForStatus ins"
  let ?s = "sessions ?l ! i"
  let ?h = "history S A ins i"
  note safe = session_safety [OF assms(1,2)]
  note shape = session_shape [OF assms(1,2)]
  have alive: "phase ?s \<noteq> Thrown"
  proof
    assume "phase ?s = Thrown"
    with safe have "results ?h \<noteq> []" and "statusOf (last (results ?h)) = None" by simp_all
    with assms(3) show False using last_in_set by blast
  qed
  have calls: "terminalCalls ?s = (if phase ?s = Terminated then 1 else 0)"
  proof (cases "phase ?s = Terminated")
    case True
    with safe obtain v where
      "count_list (trace ?s) OnSuccess = (if S v then 1 else 0)"
      "count_list (trace ?s) OnFail = (if S v then 0 else 1)"
      by auto
    with True show ?thesis by (simp add: terminalCalls_def)
  next
    case False
    with safe show ?thesis by (simp add: terminalCalls_def)
  qed
  have waits: "phase ?s = Fetching \<and> owed 1 ?h = 1 \<and> timers ?s = 0 \<and> last (trace ?s) = GetStatus
                \<and> (\<forall>r. enabled ?l (Deliver i r))
      \<or> phase ?s = Waiting \<and> owed 1 ?h = 0 \<and> timers ?s = 1
                \<and> last (trace ?s) = SetTimeout (pollTime (conf ?s)) \<and> enabled ?l (Timer i)
      \<or> phase ?s = Terminated \<and> owed 1 ?h = 0 \<and> timers ?s = 0"
    using shape alive assms(1) by (cases "phase ?s") simp_all
  have ends: "phase ?s = Terminated"
    if q: "maxTries (conf ?s) = Number (Finite q)"
      and enough: "2 * nat \<lceil>q\<rceil> \<le> length ?h + 1" for q
  proof -
    from session_progress [OF assms(1,2)] q
    have "length ?h + remaining (nat \<lceil>q\<rceil>) (testCount ?l) (phase ?s) + 1 \<le> 2 * nat \<lceil>q\<rceil>"
      by blast
    with enough have "remaining (nat \<lceil>q\<rceil>) (testCount ?l) (phase ?s) = 0" by linarith
    then show ?thesis using alive by (cases "phase ?s") simp_all
  qed
  show ?thesis
    unfolding Let_def using calls waits ends by (simp split: if_splits)
qed

theorem exactly_one_terminal_callback_witness:
  "0 < length (sessions (exec successCondition abortCondition pollForStatus
         [Launch (demoConf\<lparr>maxTries := Number (Finite 1)\<rparr>), Deliver 0 notReady]))
   \<and> oncePerFetch 1 (history successCondition abortCondition
         [Launch (demoConf\<lparr>maxTries := Number (Finite 1)\<rparr>), Deliver 0 notReady] 0)
   \<and> results (history successCondition abortCondition
         [Launch (demoConf\<lparr>maxTries := Number (Finite 1)\<rparr>), Deliver 0 notReady] 0) = [notReady]
   \<and> statusOf notReady = Some (String ''notReady'')
   \<and> terminalCalls (sessions (exec successCondition abortCondition pollForStatus
         [Launch (demoConf\<lparr>maxTries := Number (Finite 1)\<rparr>), Deliver 0 notReady]) ! 0) = 1
   \<and> phase (sessions (exec successCondition abortCondition pollForStatus
         [Launch (demoConf\<lparr>maxTries := Number (Finite 1)\<rparr>), Deliver 0 notReady]) ! 0) = Terminated
   \<and> length (history successCondition abortCondition
         [Launch (demoConf\<lparr>maxTries := Number (Finite 1)\<rparr>), Deliver 0 notReady] 0) = 1"
  using exactly_one_terminal_callback [of 0 successCondition abortCondition
      "[Launch (demoConf\<lparr>maxTries := Number (Finite 1)\<rparr>), Deliver 0 notReady]"]
  by (simp add: run_defs)

text \<open>
  The claim as it is written asks only for one callback per invocation. The fetcher of
  this run calls back once, with \<^verbatim>\<open>null\<close>: the handler calls \<^verbatim>\<open>onTic\<close> and throws on
  \<^verbatim>\<open>res.status\<close>. No fetch is left unanswered and no timer is set, and neither
  \<^verbatim>\<open>onSuccess\<close> nor \<^verbatim>\<open>onFail\<close> has been called.
\<close>

theorem null_result_counterexample:
  "oncePerFetch 1 (history successCondition abortCondition [Launch demoConf, Deliver 0 Null] 0)
   \<and> owed 1 (history successCondition abortCondition [Launch demoConf, Deliver 0 Null] 0) = 0
   \<and> timers (sessions (exec successCondition abortCondition pollForStatus
         [Launch demoConf, Deliver 0 Null]) ! 0) = 0
   \<and> phase (sessions (exec successCondition abortCondition pollForStatus
         [Launch demoConf, Deliver 0 Null]) ! 0) = Thrown
   \<and> terminalCalls (sessions (exec successCondition abortCondition pollForStatus
         [Launch demoConf, Deliver 0 Null]) ! 0) = 0
   \<and> trace (sessions (exec successCondition abortCondition pollForStatus
         [Launch demoConf, Deliver 0 Null]) ! 0) = [GetStatus, OnTic Null 1, TypeError]"
  by (simp add: run_defs)

text \<open>
  The bound on the inputs a session takes needs a finite \<^verbatim>\<open>maxTries\<close>. \<^verbatim>\<open>Infinity\<close> is a
  number that is not below 1, so the validation keeps it, and with it the handler sets the
  timer at every count for as long as no result succeeds or aborts.
\<close>

lemma infinite_maxTries_is_kept:
  "maxTries (validate (c\<lparr>maxTries := Number PosInfinity\<rparr>)) = Number PosInfinity"
  by (simp add: validate_maxTries)

lemma infinite_maxTries_never_exhausts:
  assumes "maxTries (conf s) = Number PosInfinity"
    and "statusOf res = Some v" and "\<not> S v" and "\<not> A v"
  shows "phase (statusCallback S A t res s) = Waiting"
  using assms by (simp add: statusCallback_phase)



text \<open>
  Claim C5, as amended. A session whose validated \<^verbatim>\<open>maxTries\<close> is the integer \<open>N\<close> and
  to which the fetcher calls back at most once per invocation invokes the fetcher at most
  \<open>N\<close> times, whatever the fetcher delivers (also \<^verbatim>\<open>null\<close>), whatever the predicates
  answer and whatever the other sessions of the launcher and their fetches do.
\<close>

theorem attempt_bound:
  assumes "i < length (sessions (exec S A pollForStatus ins))"
    and "oncePerFetch 1 (history S A ins i)"
    and "maxTries (conf (sessions (exec S A pollForStatus ins) ! i)) = Number (Finite (of_nat N))"
  shows "fetches (sessions (exec S A pollForStatus ins) ! i) \<le> N"
proof -
  from session_fetch_bound [OF assms(1,2)] assms(3)
  have "fetches (sessions (exec S A pollForStatus ins) ! i) \<le> nat \<lceil>(of_nat N :: rat)\<rceil>"
    by blast
  then show ?thesis by simp
qed

theorem attempt_bound_witness:
  "0 < length (sessions (exec successCondition abortCondition pollForStatus
         [Launch (demoConf\<lparr>maxTries := Number (Finite 2)\<rparr>), Deliver 0 notReady, Timer 0,
          Deliver 0 Null, Timer 0]))
   \<and> oncePerFetch 1 (history successCondition abortCondition
         [Launch (demoConf\<lparr>maxTries := Number (Finite 2)\<rparr>), Deliver 0 notReady, Timer 0,
          Deliver 0 Null, Timer 0] 0)
   \<and> maxTries (conf (sessions (exec successCondition abortCondition pollForStatus
         [Launch (demoConf\<lparr>maxTries := Number (Finite 2)\<rparr>), Deliver 0 notReady, Timer 0,
          Deliver 0 Null, Timer 0]) ! 0)) = Number (Finite (of_nat 2))
   \<and> fetches (sessions (exec successCondition abortCondition pollForStatus
         [Launch (demoConf\<lparr>maxTries := Number (Finite 2)\<rparr>), Deliver 0 notReady, Timer 0,
          Deliver 0 Null, Timer 0]) ! 0) \<le> 2"
  using attempt_bound [of 0 successCondition abortCondition
      "[Launch (demoConf\<lparr>maxTries := Number (Finite 2)\<rparr>), Deliver 0 notReady, Timer 0,
        Deliver 0 Null, Timer 0]" 2]
  by (simp add: run_defs)

text \<open>
  The claim as it is written is about every behaviour of the fetcher. A fetcher that calls
  the completion handler twice for the first fetch makes the session set two timers, and
  with \<^verbatim>\<open>maxTries\<close> 2 the session makes 3 fetches.
\<close>

theorem second_callback_counterexample:
  "maxTries (conf (sessions (exec successCondition abortCondition pollForStatus
         [Launch (demoConf\<lparr>maxTries := Number (Finite 2)\<rparr>), Deliver 0 notReady,
          Deliver 0 notReady, Timer 0, Timer 0]) ! 0)) = Number (Finite 2)
   \<and> fetches (sessions (exec successCondition abortCondition pollForStatus
         [Launch (demoConf\<lparr>maxTries := Number (Finite 2)\<rparr>), Deliver 0 notReady,
          Deliver 0 notReady, Timer 0, Timer 0]) ! 0) = 3
   \<and> \<not> oncePerFetch 1 (history successCondition abortCondition
         [Launch (demoConf\<lparr>maxTries := Number (Finite 2)\<rparr>), Deliver 0 notReady,
          Deliver 0 notReady, Timer 0, Timer 0] 0)"
  by (simp add: run_defs)

section \<open>What the callbacks and the predicates receive\<close>

text \<open>
  Claim C4, as amended. In every run, the results that the fetcher delivered to a session
  are passed to \<^verbatim>\<open>onTic\<close> unmodified, one call per result and in order, when \<^verbatim>\<open>onTic\<close> is
  a function. The success predicate and the abort predicate do not receive the result:
  each receives the \<^verbatim>\<open>status\<close> property that the completion handler reads from it, once
  for every result from which it can be read.
\<close>

theorem predicates_receive_status:
  assumes "i < length (sessions (exec S A pollForStatus ins))"
  shows "let s = sessions (exec S A pollForStatus ins) ! i;
             rs = results (history S A ins i) in
           map fst (ticArgs (trace s)) =
             (if typeof (onTic (conf s)) = ''function'' then rs else [])
         \<and> successArgs (trace s) = statuses rs
         \<and> abortArgs (trace s) = statuses rs
         \<and> ((\<forall>r\<in>set rs. statusOf r \<noteq> None) \<longrightarrow>
              successArgs (trace s) = map (\<lambda>r. the (statusOf r)) rs
            \<and> abortArgs (trace s) = map (\<lambda>r. the (statusOf r)) rs)"
proof -
  have "statuses rs = map (\<lambda>r. the (statusOf r)) rs" if "\<forall>r\<in>set rs. statusOf r \<noteq> None" for rs
    using that by (induction rs) (auto simp add: statuses_def List.map_filter_def)
  with session_arguments [OF assms] show ?thesis unfolding Let_def by simp
qed

theorem predicates_receive_status_witness:
  "0 < length (sessions (exec successCondition abortCondition pollForStatus
         [Launch demoConf, Deliver 0 notReady]))
   \<and> map fst (ticArgs (trace (sessions (exec successCondition abortCondition pollForStatus
         [Launch demoConf, Deliver 0 notReady]) ! 0))) = [notReady]
   \<and> successArgs (trace (sessions (exec successCondition abortCondition pollForStatus
         [Launch demoConf, Deliver 0 notReady]) ! 0)) = [String ''notReady'']
   \<and> abortArgs (trace (sessions (exec successCondition abortCondition pollForStatus
         [Launch demoConf, Deliver 0 notReady]) ! 0)) = [String ''notReady'']"
  using predicates_receive_status [of 0 successCondition abortCondition
      "[Launch demoConf, Deliver 0 notReady]"]
  by (simp add: run_defs)

text \<open>
  The claim as it is written says that the success predicate receives the result itself.
  With the fetcher of the demonstration it receives the string \<^verbatim>\<open>'notReady'\<close>, not the
  object that carries it.
\<close>

theorem predicates_receive_result_counterexample:
  "successArgs (trace (sessions (exec successCondition abortCondition pollForStatus
         [Launch demoConf, Deliver 0 notReady]) ! 0))
     \<noteq> results (history successCondition abortCondition
         [Launch demoConf, Deliver 0 notReady] 0)"
  by (simp add: run_defs)

section \<open>Sessions of one launcher\<close>

text \<open>
  When a launcher is used for one session only and the fetcher calls back once per
  invocation, the launcher's counter is that session's count of fetches: the attempt
  numbers reported to \<^verbatim>\<open>onTic\<close> are 1, 2, 3 and so on, and a session that never sees a
  succeeding or aborting result ends, with \<^verbatim>\<open>onFail\<close>, at the first count that is not
  below \<^verbatim>\<open>maxTries\<close>, the ceiling of \<^verbatim>\<open>maxTries\<close>.
\<close>

lemma only_session:
  assumes "\<forall>x\<in>set tl_ins. target x \<noteq> None"
    and "oncePerFetch 1 (history S A (Launch c # tl_ins) 0)"
  shows "let l = exec S A pollForStatus (Launch c # tl_ins);
             s = sessions l ! 0;
             rs = results (history S A (Launch c # tl_ins) 0) in
           length (sessions l) = 1 \<and> conf s = validate c
         \<and> testCount l = fetches s
         \<and> fetches s = (if phase s = Fetching then Suc (length rs) else length rs)
         \<and> map snd (ticArgs (trace s)) =
              (if typeof (onTic (conf s)) = ''function'' then [1..<Suc (length rs)] else [])
         \<and> ((\<forall>r\<in>set rs. \<exists>v. statusOf r = Some v \<and> \<not> S v \<and> \<not> A v) \<longrightarrow>
              phase s = Terminated \<longrightarrow>
              \<not> js_less (Number (Finite (of_nat (fetches s)))) (maxTries (conf s))
              \<and> last (trace s) = OnFail)"
  using assms
proof (induction tl_ins rule: rev_induct)
  case Nil
  show ?case
    by (simp add: Let_def launch_sessions launch_testCount pollForStatus_def fetches_def
        history_def own_def ticArgs_def)
next
  case (snoc x xs)
  let ?l = "exec S A pollForStatus (Launch c # xs)"
  let ?s = "sessions ?l ! 0"
  let ?h = "history S A (Launch c # xs) 0"
  let ?rs = "results ?h"
  have ex: "exec S A pollForStatus (Launch c # xs @ [x]) = step S A ?l x"
    using exec_snoc [of S A pollForStatus "Launch c # xs" x] by simp
  have hs: "history S A (Launch c # xs @ [x]) 0 =
      ?h @ (if enabled ?l x \<and> target x = Some 0 then [x] else [])"
    using history_snoc [of S A "Launch c # xs" x 0] by simp
  from snoc.prems(2) have once: "oncePerFetch 1 ?h"
    and last_ok: "oncePerFetch (owed 1 ?h) (if enabled ?l x \<and> target x = Some 0 then [x] else [])"
    unfolding hs by (simp_all add: oncePerFetch_append)
  from snoc.prems(1) have "\<forall>x\<in>set xs. target x \<noteq> None" by simp
  from snoc.IH [OF this once]
  have len: "length (sessions ?l) = 1"
    and cf: "conf ?s = validate c" and tc: "testCount ?l = fetches ?s"
    and fs: "fetches ?s = (if phase ?s = Fetching then Suc (length ?rs) else length ?rs)"
    and tics: "map snd (ticArgs (trace ?s)) =
              (if typeof (onTic (conf ?s)) = ''function'' then [1..<Suc (length ?rs)] else [])"
    unfolding Let_def by blast+
  from len have pos: "0 < length (sessions ?l)" by simp
  note shape = session_shape [OF pos once]
  from len obtain s0 where ss: "sessions ?l = [s0]" by (cases "sessions ?l") simp_all
  then have s0: "?s = s0" by simp
  show ?case
  proof (cases "enabled ?l x")
    case False
    then have "step S A ?l x = ?l" by (rule step_disabled)
    moreover have "history S A (Launch c # xs @ [x]) 0 = ?h" using False hs by simp
    ultimately show ?thesis
      unfolding ex using snoc.IH [OF \<open>\<forall>x\<in>set xs. target x \<noteq> None\<close> once] by simp
  next
    case en: True
    show ?thesis
    proof (cases x)
      case (Launch c')
      with snoc.prems show ?thesis by simp
    next
      case (Deliver j r)
      with en len have j: "j = 0" by auto
      have h: "history S A (Launch c # xs @ [x]) 0 = ?h @ [Deliver 0 r]"
        using hs en by (simp add: Deliver j)
      from last_ok en have "0 < owed 1 ?h" by (simp add: Deliver j)
      with shape have ph: "phase ?s = Fetching" by (simp split: if_splits)
      have st: "step S A ?l x = ?l\<lparr>sessions := [statusCallback S A (testCount ?l) r s0]\<rparr>"
        using en ss by (simp add: Deliver j)
      let ?t = "testCount ?l"
      let ?s' = "statusCallback S A ?t r s0"
      have t: "?t = Suc (length ?rs)" using tc fs ph by simp
      have f: "fetches ?s' = fetches s0"
        by (simp add: fetches_def statusCallback_trace split: option.splits)
      have p: "phase ?s' \<noteq> Fetching"
        by (simp add: statusCallback_phase split: option.splits)
      have a: "length (sessions (?l\<lparr>sessions := [?s']\<rparr>)) = 1" by simp
      have c: "conf ?s' = validate c" using cf s0 by simp
      have d: "testCount (?l\<lparr>sessions := [?s']\<rparr>) = fetches ?s'" using tc s0 f by simp
      have e: "fetches ?s' =
          (if phase ?s' = Fetching then Suc (length (results (?h @ [Deliver 0 r])))
           else length (results (?h @ [Deliver 0 r])))"
        using p fs ph s0 f by (simp add: results_append)
      have g: "map snd (ticArgs (trace ?s')) =
          (if typeof (onTic (conf ?s')) = ''function''
           then [1..<Suc (length (results (?h @ [Deliver 0 r])))] else [])"
        using tics s0 t
        by (simp add: statusCallback_trace results_append ticArgs_def split: option.splits)
      have k: "\<not> js_less (Number (Finite (of_nat (fetches ?s')))) (maxTries (conf ?s'))
          \<and> last (trace ?s') = OnFail"
        if "\<forall>r\<in>set (results (?h @ [Deliver 0 r])). \<exists>v. statusOf r = Some v \<and> \<not> S v \<and> \<not> A v"
          and "phase ?s' = Terminated"
      proof -
        from that(1) obtain v where v: "statusOf r = Some v" "\<not> S v" "\<not> A v"
          by (auto simp add: results_append)
        with that(2) have "\<not> js_less (Number (Finite (of_nat ?t))) (maxTries (conf s0))"
          by (simp add: statusCallback_phase split: if_splits)
        moreover have "?t = fetches ?s'" using tc s0 f by simp
        moreover have "last (trace ?s') = OnFail"
          using v that(2)
          by (simp add: statusCallback_trace statusCallback_phase split: if_splits)
        ultimately show ?thesis by simp
      qed
      show ?thesis
        unfolding Let_def ex st h using a c d e g k by simp
    next
      case (Timer j)
      with en len have j: "j = 0" and tm: "0 < timers ?s" by auto
      with shape have ph: "phase ?s = Waiting" by (simp split: if_splits)
      have h: "history S A (Launch c # xs @ [x]) 0 = ?h @ [Timer 0]"
        using hs en by (simp add: Timer j)
      have st: "step S A ?l x =
          ?l\<lparr>testCount := Suc (testCount ?l), sessions := [startFetch (fire s0)]\<rparr>"
        using en ss by (simp add: Timer j performStatusCheck_def)
      let ?s' = "startFetch (fire s0)"
      have f: "fetches ?s' = Suc (fetches s0)" by (simp add: fetches_def)
      have r: "results (?h @ [Timer 0]) = ?rs" by (simp add: results_append)
      have a: "length (sessions (?l\<lparr>testCount := Suc (testCount ?l), sessions := [?s']\<rparr>)) = 1"
        by simp
      have c: "conf ?s' = validate c" using cf s0 by simp
      have d: "testCount (?l\<lparr>testCount := Suc (testCount ?l), sessions := [?s']\<rparr>) = fetches ?s'"
        using tc s0 f by simp
      have e: "fetches ?s' =
          (if phase ?s' = Fetching then Suc (length (results (?h @ [Timer 0])))
           else length (results (?h @ [Timer 0])))"
        using fs ph s0 f r by simp
      have g: "map snd (ticArgs (trace ?s')) =
          (if typeof (onTic (conf ?s')) = ''function''
           then [1..<Suc (length (results (?h @ [Timer 0])))] else [])"
        using tics s0 r by (simp add: ticArgs_def)
      have k: "phase ?s' \<noteq> Terminated" by simp
      show ?thesis
        unfolding Let_def ex st h using a c d e g k by simp
    qed
  qed
qed

lemma only_session_exhausts:
  assumes alone: "\<forall>x\<in>set tl_ins. target x \<noteq> None"
    and once: "oncePerFetch 1 (history S A (Launch c # tl_ins) 0)"
    and never: "\<forall>r\<in>set (results (history S A (Launch c # tl_ins) 0)).
                  \<exists>v. statusOf r = Some v \<and> \<not> S v \<and> \<not> A v"
    and q: "maxTries (validate c) = Number (Finite q)"
    and fin: "phase (sessions (exec S A pollForStatus (Launch c # tl_ins)) ! 0) = Terminated"
  shows "fetches (sessions (exec S A pollForStatus (Launch c # tl_ins)) ! 0) = nat \<lceil>q\<rceil>
       \<and> last (trace (sessions (exec S A pollForStatus (Launch c # tl_ins)) ! 0)) = OnFail"
proof -
  let ?l = "exec S A pollForStatus (Launch c # tl_ins)"
  let ?s = "sessions ?l ! 0"
  from only_session [OF alone once] never fin
  have len: "length (sessions ?l) = 1" and cf: "conf ?s = validate c"
    and stop: "\<not> js_less (Number (Finite (of_nat (fetches ?s)))) (maxTries (conf ?s))"
    and fail: "last (trace ?s) = OnFail"
    unfolding Let_def by blast+
  from stop cf q have "q \<le> of_nat (fetches ?s)" by simp
  then have "\<lceil>q\<rceil> \<le> int (fetches ?s)" by (simp add: ceiling_le_iff)
  then have "nat \<lceil>q\<rceil> \<le> fetches ?s" by linarith
  moreover from len have "0 < length (sessions ?l)" by simp
  from session_fetch_bound [OF this once] cf q have "fetches ?s \<le> nat \<lceil>q\<rceil>" by simp
  ultimately show ?thesis using fail by simp
qed

lemma only_session_ticks:
  assumes alone: "\<forall>x\<in>set tl_ins. target x \<noteq> None"
    and once: "oncePerFetch 1 (history S A (Launch c # tl_ins) 0)"
    and tic: "typeof (onTic c) = ''function''"
  shows "ticArgs (trace (sessions (exec S A pollForStatus (Launch c # tl_ins)) ! 0)) =
           zip (results (history S A (Launch c # tl_ins) 0))
               [1..<Suc (length (results (history S A (Launch c # tl_ins) 0)))]"
proof -
  let ?l = "exec S A pollForStatus (Launch c # tl_ins)"
  let ?s = "sessions ?l ! 0"
  let ?rs = "results (history S A (Launch c # tl_ins) 0)"
  from only_session [OF alone once]
  have len: "length (sessions ?l) = 1" and cf: "conf ?s = validate c"
    and nums: "map snd (ticArgs (trace ?s)) =
              (if typeof (onTic (conf ?s)) = ''function'' then [1..<Suc (length ?rs)] else [])"
    unfolding Let_def by blast+
  from len have "0 < length (sessions ?l)" by simp
  from session_arguments [OF this]
  have "map fst (ticArgs (trace ?s)) =
          (if typeof (onTic (conf ?s)) = ''function'' then ?rs else [])"
    by simp
  with nums cf tic have "map fst (ticArgs (trace ?s)) = ?rs"
    and "map snd (ticArgs (trace ?s)) = [1..<Suc (length ?rs)]"
    by (simp_all add: validate_frame)
  then show ?thesis by (metis zip_map_fst_snd)
qed

text \<open>
  Claim C3. Two sessions of one launcher, with \<^verbatim>\<open>maxTries\<close> 3 and 5, no result ready, their
  attempts interleaved as the timers of the demonstration interleave them. The counter is
  the launcher's, so the first session fails after 2 fetches and the second after 3, and
  the attempt numbers that \<^verbatim>\<open>onTic\<close> reports are 1, 3 for the first and 2, 4, 5 for the
  second.
\<close>

theorem sessions_share_testCount:
  "let l = exec successCondition abortCondition pollForStatus
             [Launch (demoConf\<lparr>maxTries := Number (Finite 3)\<rparr>), Deliver 0 notReady,
              Launch (demoConf\<lparr>maxTries := Number (Finite 5)\<rparr>), Deliver 1 notReady,
              Timer 0, Deliver 0 notReady,
              Timer 1, Deliver 1 notReady,
              Timer 1, Deliver 1 notReady]
   in phase (sessions l ! 0) = Terminated \<and> fetches (sessions l ! 0) = 2
    \<and> map snd (ticArgs (trace (sessions l ! 0))) = [1, 3]
    \<and> phase (sessions l ! 1) = Terminated \<and> fetches (sessions l ! 1) = 3
    \<and> map snd (ticArgs (trace (sessions l ! 1))) = [2, 4, 5]
    \<and> testCount l = 5"
  by (simp add: run_defs)

theorem sessions_share_testCount_witness:
  "fetches (sessions (exec successCondition abortCondition pollForStatus
             [Launch (demoConf\<lparr>maxTries := Number (Finite 3)\<rparr>), Deliver 0 notReady,
              Launch (demoConf\<lparr>maxTries := Number (Finite 5)\<rparr>), Deliver 1 notReady,
              Timer 0, Deliver 0 notReady,
              Timer 1, Deliver 1 notReady,
              Timer 1, Deliver 1 notReady]) ! 1) = 3"
  using sessions_share_testCount by (simp only: Let_def)

text \<open>
  In \<^verbatim>\<open>createStatusPollFunction\<close> the counter belongs to the session: an input addressed
  to another session, or a launch, leaves a session as it is, counter included, and the same
  two sessions as above count their attempts apart.
\<close>

lemma createStatusPollFunction_frame:
  "i < length l \<Longrightarrow> target x \<noteq> Some i \<Longrightarrow> step2 S A l x ! i = l ! i"
  by (cases x) (auto simp add: launch2_def nth_append)

lemma createStatusPollFunction_two_sessions:
  "let l = exec2 (statusIs ''ready'') (statusIs ''abort'') createStatusPollFunction
             [Launch (demoConf\<lparr>maxTries := Number (Finite 3)\<rparr>), Deliver 0 notReady,
              Launch (demoConf\<lparr>maxTries := Number (Finite 5)\<rparr>), Deliver 1 notReady,
              Timer 0, Deliver 0 notReady,
              Timer 1, Deliver 1 notReady,
              Timer 1, Deliver 1 notReady]
   in phase (snd (l ! 0)) = Waiting \<and> fetches (snd (l ! 0)) = 2
    \<and> map snd (ticArgs (trace (snd (l ! 0)))) = [1, 2]
    \<and> phase (snd (l ! 1)) = Waiting \<and> fetches (snd (l ! 1)) = 3
    \<and> map snd (ticArgs (trace (snd (l ! 1)))) = [1, 2, 3]"
  by (simp add: run_defs createStatusPollFunction_def launch2_def performStatusCheck2_def
      statusCallback2_def statusIs_def)

text \<open>
  Claim C6. A session runs to its end with \<^verbatim>\<open>maxTries\<close> 2, then a second session is
  launched from the same launcher. The first session reports the attempt numbers 1 and 2;
  the only attempt of the second session is reported as attempt 3.
\<close>

theorem second_session_tick_numbers:
  "let l = exec successCondition abortCondition pollForStatus
             [Launch (demoConf\<lparr>maxTries := Number (Finite 2)\<rparr>), Deliver 0 notReady,
              Timer 0, Deliver 0 notReady,
              Launch (demoConf\<lparr>maxTries := Number (Finite 2)\<rparr>), Deliver 1 notReady]
   in ticArgs (trace (sessions l ! 0)) = [(notReady, 1), (notReady, 2)]
    \<and> phase (sessions l ! 0) = Terminated
    \<and> ticArgs (trace (sessions l ! 1)) = [(notReady, 3)]
    \<and> fetches (sessions l ! 1) = 1"
  by (simp add: run_defs)

theorem second_session_tick_numbers_witness:
  "ticArgs (trace (sessions (exec successCondition abortCondition pollForStatus
             [Launch (demoConf\<lparr>maxTries := Number (Finite 2)\<rparr>), Deliver 0 notReady,
              Timer 0, Deliver 0 notReady,
              Launch (demoConf\<lparr>maxTries := Number (Finite 2)\<rparr>), Deliver 1 notReady]) ! 1))
     = [(notReady, 3)]"
  using second_session_tick_numbers by (simp only: Let_def)

text \<open>
  Claim C10. \<^verbatim>\<open>maxTries\<close> 2.5 is kept as it is. The first session of a launcher makes 3
  fetches, the ceiling of 2.5, before \<^verbatim>\<open>onFail\<close>; a second session of the same launcher,
  with the same configuration and again no result ready, makes 1.
\<close>

theorem fractional_maxTries_second_session:
  "let l = exec successCondition abortCondition pollForStatus
             [Launch (demoConf\<lparr>maxTries := Number (Finite (5 / 2))\<rparr>), Deliver 0 notReady,
              Timer 0, Deliver 0 notReady,
              Timer 0, Deliver 0 notReady,
              Launch (demoConf\<lparr>maxTries := Number (Finite (5 / 2))\<rparr>), Deliver 1 notReady]
   in maxTries (conf (sessions l ! 0)) = Number (Finite (5 / 2))
    \<and> fetches (sessions l ! 0) = 3 \<and> last (trace (sessions l ! 0)) = OnFail
    \<and> maxTries (conf (sessions l ! 1)) = Number (Finite (5 / 2))
    \<and> fetches (sessions l ! 1) = 1 \<and> last (trace (sessions l ! 1)) = OnFail
    \<and> phase (sessions l ! 1) = Terminated
    \<and> nat \<lceil>5 / 2 :: rat\<rceil> = 3"
proof -
  have "\<lceil>5 / 2 :: rat\<rceil> = 3" by (rule ceiling_unique) simp_all
  then show ?thesis by (simp add: run_defs)
qed

theorem fractional_maxTries_second_session_witness:
  "fetches (sessions (exec successCondition abortCondition pollForStatus
             [Launch (demoConf\<lparr>maxTries := Number (Finite (5 / 2))\<rparr>), Deliver 0 notReady,
              Timer 0, Deliver 0 notReady,
              Timer 0, Deliver 0 notReady,
              Launch (demoConf\<lparr>maxTries := Number (Finite (5 / 2))\<rparr>), Deliver 1 notReady]) ! 1) = 1"
  using fractional_maxTries_second_session by (simp only: Let_def)

section \<open>The demonstration\<close>

lemma validate_keeps_20:
  "maxTries c = Number (Finite 20) \<Longrightarrow> maxTries (validate c) = Number (Finite 20)"
  by (simp add: validate_maxTries)

lemma demoLaunch_polling:
  assumes "maxTries c = Number (Finite 20)"
  shows "polling 1 (demoLaunch c (pollForStatus, 0))"
  using validate_keeps_20 [OF assms]
  by (simp add: polling_def demoLaunch_def fetchNow_def getStatus_def readyOnTest_def
      launch_sessions launch_testCount pollForStatus_def statusCallback_phase
      statusCallback_trace statusCallback_timers fetches_def terminalCalls_def getProp_def
      successCondition_def abortCondition_def)

lemma demoTimer_polling:
  assumes "polling n st" and "Suc n < 10"
  shows "polling (Suc n) (demoTimer 0 st)"
proof -
  obtain l rc where st: "st = (l, rc)" by (cases st)
  from assms(1) have "length (sessions l) = 1" by (simp add: polling_def st)
  then obtain s where l: "sessions l = [s]" by (cases "sessions l") simp_all
  from assms(1) have s: "rc = n" "testCount l = n" "phase s = Waiting" "timers s = 1"
    "maxTries (conf s) = Number (Finite 20)" "fetches s = n" "terminalCalls s = 0"
    by (simp_all add: polling_def st l)
  from assms(2) have "rat_of_nat (Suc n) < 20" by simp
  then show ?thesis using s assms(2)
    by (simp add: polling_def demoTimer_def fetchNow_def getStatus_def readyOnTest_def st l
        performStatusCheck_def statusCallback_phase statusCallback_trace statusCallback_timers fetches_def
        terminalCalls_def getProp_def successCondition_def abortCondition_def)
qed

lemma demoRun_polling:
  "polling n st \<Longrightarrow> n + k < 10 \<Longrightarrow> polling (n + k) (demoRun k st)"
proof (induction k arbitrary: n st)
  case 0
  then show ?case by simp
next
  case (Suc k)
  from Suc.prems have "polling (Suc n) (demoTimer 0 st)" by (intro demoTimer_polling) simp_all
  with Suc.prems(2) Suc.IH [of "Suc n" "demoTimer 0 st"] show ?case by simp
qed

lemma demoRun_Suc: "demoRun (Suc n) st = demoTimer 0 (demoRun n st)"
  by (induction n arbitrary: st) simp_all

lemma demoTimer_ready:
  assumes "polling 9 st"
  shows "phase (sessions (fst (demoTimer 0 st)) ! 0) = Terminated
       \<and> timers (sessions (fst (demoTimer 0 st)) ! 0) = 0
       \<and> fetches (sessions (fst (demoTimer 0 st)) ! 0) = 10
       \<and> snd (demoTimer 0 st) = 10
       \<and> count_list (trace (sessions (fst (demoTimer 0 st)) ! 0)) OnSuccess = 1
       \<and> count_list (trace (sessions (fst (demoTimer 0 st)) ! 0)) OnFail = 0
       \<and> last (trace (sessions (fst (demoTimer 0 st)) ! 0)) = OnSuccess"
proof -
  obtain l rc where st: "st = (l, rc)" by (cases st)
  from assms have "length (sessions l) = 1" by (simp add: polling_def st)
  then obtain s where l: "sessions l = [s]" by (cases "sessions l") simp_all
  from assms have s: "rc = 9" "testCount l = 9" "phase s = Waiting" "timers s = 1"
    "maxTries (conf s) = Number (Finite 20)" "fetches s = 9"
    "count_list (trace s) OnSuccess = 0" "count_list (trace s) OnFail = 0"
    by (simp_all add: polling_def st l terminalCalls_def)
  then show ?thesis
    by (simp add: demoTimer_def fetchNow_def getStatus_def readyOnTest_def st l
        performStatusCheck_def statusCallback_phase statusCallback_trace statusCallback_timers fetches_def
        getProp_def successCondition_def abortCondition_def)
qed

lemma demoTimer_done:
  "timers (sessions (fst st) ! 0) = 0 \<Longrightarrow> demoTimer 0 st = st"
  by (simp add: demoTimer_def)

lemma demoRun_done:
  "timers (sessions (fst st) ! 0) = 0 \<Longrightarrow> demoRun k st = st"
  by (induction k) (simp_all add: demoTimer_done)

lemma demoRun_add: "demoRun (n + k) st = demoRun k (demoRun n st)"
  by (induction n arbitrary: st) simp_all

text \<open>
  Claim C8. With the demonstration's fetcher not yet invoked and a fresh launcher, a
  session launched with \<^verbatim>\<open>maxTries\<close> 20 is still waiting, with no terminal callback called,
  after each of its first nine attempts; its tenth attempt ends it with \<^verbatim>\<open>onSuccess\<close>, the
  fetcher has then been invoked 10 times, and no timer is left to fire.
\<close>

theorem demo_succeeds_on_tenth_attempt:
  assumes "maxTries c = Number (Finite 20)"
  shows "(\<forall>n<9. let s = sessions (fst (demoRun n (demoLaunch c (pollForStatus, 0)))) ! 0 in
               phase s = Waiting \<and> fetches s = Suc n \<and> terminalCalls s = 0)
       \<and> (let st = demoRun 9 (demoLaunch c (pollForStatus, 0)); s = sessions (fst st) ! 0 in
               phase s = Terminated \<and> fetches s = 10 \<and> snd st = 10
             \<and> count_list (trace s) OnSuccess = 1 \<and> count_list (trace s) OnFail = 0
             \<and> last (trace s) = OnSuccess)
       \<and> (\<forall>k. demoRun (9 + k) (demoLaunch c (pollForStatus, 0))
                = demoRun 9 (demoLaunch c (pollForStatus, 0)))"
proof -
  let ?st = "demoLaunch c (pollForStatus, 0)"
  have first: "polling 1 ?st" using assms by (rule demoLaunch_polling)
  have before: "polling (Suc n) (demoRun n ?st)" if "n < 9" for n
    using demoRun_polling [OF first, of n] that by simp
  have nine: "demoRun 9 ?st = demoTimer 0 (demoRun 8 ?st)"
    using demoRun_Suc [of 8 ?st] by simp
  have "polling 9 (demoRun 8 ?st)" using before [of 8] by simp
  then have last: "phase (sessions (fst (demoRun 9 ?st)) ! 0) = Terminated
       \<and> timers (sessions (fst (demoRun 9 ?st)) ! 0) = 0
       \<and> fetches (sessions (fst (demoRun 9 ?st)) ! 0) = 10
       \<and> snd (demoRun 9 ?st) = 10
       \<and> count_list (trace (sessions (fst (demoRun 9 ?st)) ! 0)) OnSuccess = 1
       \<and> count_list (trace (sessions (fst (demoRun 9 ?st)) ! 0)) OnFail = 0
       \<and> last (trace (sessions (fst (demoRun 9 ?st)) ! 0)) = OnSuccess"
    unfolding nine by (rule demoTimer_ready)
  then have after: "demoRun (9 + k) ?st = demoRun 9 ?st" for k
    unfolding demoRun_add by (intro demoRun_done) simp
  show ?thesis
    unfolding Let_def using before last after by (simp add: polling_def)
qed

theorem demo_succeeds_on_tenth_attempt_witness:
  "maxTries demoConf = Number (Finite 20)
   \<and> phase (sessions (fst (demoRun 9 (demoLaunch demoConf (pollForStatus, 0)))) ! 0) = Terminated
   \<and> fetches (sessions (fst (demoRun 9 (demoLaunch demoConf (pollForStatus, 0)))) ! 0) = 10
   \<and> last (trace (sessions (fst (demoRun 9 (demoLaunch demoConf (pollForStatus, 0)))) ! 0)) = OnSuccess
   \<and> phase (sessions (fst (demoRun 8 (demoLaunch demoConf (pollForStatus, 0)))) ! 0) = Waiting"
proof -
  have c: "maxTries demoConf = Number (Finite 20)" by (simp add: demoConf_def)
  from demo_succeeds_on_tenth_attempt [OF c] have
    "\<forall>n<9. let s = sessions (fst (demoRun n (demoLaunch demoConf (pollForStatus, 0)))) ! 0 in
               phase s = Waiting \<and> fetches s = Suc n \<and> terminalCalls s = 0"
    and "let st = demoRun 9 (demoLaunch demoConf (pollForStatus, 0)); s = sessions (fst st) ! 0 in
               phase s = Terminated \<and> fetches s = 10 \<and> snd st = 10
             \<and> count_list (trace s) OnSuccess = 1 \<and> count_list (trace s) OnFail = 0
             \<and> last (trace s) = OnSuccess"
    by blast+
  then show ?thesis using c by (simp add: Let_def)
qed

end
